theory Spec2Isabelle
  imports Complex_Main
begin

section \<open>Failures and sequencing\<close>

text \<open>
  The C program can stop in four ways that matter here: a failed \<^verbatim>\<open>NN_ASSERT\<close>,
  a dereference of a null \<^verbatim>\<open>es\<close> pointer, an access outside the buffer a pointer
  refers to, and a \<^verbatim>\<open>free\<close> of something that is not a live allocation. The last
  three are undefined behaviour in C; the model makes each of them a result value, so
  that a C function is a HOL function into \<open>error + 'a\<close>.
\<close>

datatype error = AssertFail | NullDeref | OutOfBounds | InvalidFree

definition ebind :: "error + 'a \<Rightarrow> ('a \<Rightarrow> error + 'b) \<Rightarrow> error + 'b" where
  "ebind r f = (case r of Inl e \<Rightarrow> Inl e | Inr x \<Rightarrow> f x)"

definition NN_ASSERT :: "bool \<Rightarrow> error + unit" where
  "NN_ASSERT c = (if c then Inr () else Inl AssertFail)"

text \<open>A \<^verbatim>\<open>for\<close> loop over a list of index values, stopping at the first failure.\<close>

fun foldM :: "('b \<Rightarrow> 's \<Rightarrow> error + 's) \<Rightarrow> 'b list \<Rightarrow> 's \<Rightarrow> error + 's" where
  "foldM f [] s = Inr s"
| "foldM f (x # xs) s = (case f x s of Inl e \<Rightarrow> Inl e | Inr s' \<Rightarrow> foldM f xs s')"

section \<open>Matrices (neural\_net.h)\<close>

text \<open>
  \<^verbatim>\<open>float\<close> is an arbitrary type \<open>'a\<close> that has the arithmetic operations the code
  uses and no laws: what is proved for every such \<open>'a\<close> holds whatever the rounding.
  \<^verbatim>\<open>expf\<close> and the conversion \<^verbatim>\<open>(float)n\<close> are parameters of the functions that
  use them. \<^verbatim>\<open>size_t\<close> is \<open>nat\<close> (no product of dimensions in this program comes
  near \<open>2^64\<close>).

  A pointer carries the allocation it points into, its element offset in that
  allocation, and the cells from the pointed-to element to the end of the allocation.
  Every matrix of a network has a buffer of its own (\<^verbatim>\<open>xor_alloc\<close>), and the views
  made by \<^verbatim>\<open>mat_row\<close> are only read, so a callee's writes through one matrix
  are never seen through another, and the cells can travel with the pointer.
\<close>

record 'a ptr =
  block :: nat
  offset :: nat
  cells :: "'a list"

record 'a Mat =
  rows :: nat
  cols :: nat
  stride :: nat
  es :: "'a ptr option"

text \<open>\<^verbatim>\<open>#define MAT_AT(m, i, j) (m).es[(i)*(m).stride + (j)]\<close>, read and written.\<close>

definition MAT_AT :: "'a Mat \<Rightarrow> nat \<Rightarrow> nat \<Rightarrow> error + 'a" where
  "MAT_AT m i j =
     (case es m of
        None \<Rightarrow> Inl NullDeref
      | Some p \<Rightarrow>
          if i * stride m + j < length (cells p)
          then Inr (cells p ! (i * stride m + j))
          else Inl OutOfBounds)"

definition MAT_SET :: "'a Mat \<Rightarrow> nat \<Rightarrow> nat \<Rightarrow> 'a \<Rightarrow> error + 'a Mat" where
  "MAT_SET m i j v =
     (case es m of
        None \<Rightarrow> Inl NullDeref
      | Some p \<Rightarrow>
          if i * stride m + j < length (cells p)
          then Inr (m\<lparr>es := Some (p\<lparr>cells := (cells p)[i * stride m + j := v]\<rparr>)\<rparr>)
          else Inl OutOfBounds)"

text \<open>
  The index pairs of \<^verbatim>\<open>for (i < m.rows) for (j < m.cols)\<close>, in the order the
  loops visit them.
\<close>

definition mat_slots :: "'a Mat \<Rightarrow> (nat \<times> nat) list" where
  "mat_slots m = concat (map (\<lambda>i. map (\<lambda>j. (i, j)) [0..<cols m]) [0..<rows m])"

definition sigmoidf :: "('a \<Rightarrow> 'a) \<Rightarrow> 'a \<Rightarrow> 'a::{one,plus,uminus,inverse}" where
  "sigmoidf expf x = 1 / (1 + expf (- x))"

subsection \<open>Allocation\<close>

text \<open>
  The C library's allocator: the live allocations with their sizes, the next fresh
  allocation, and the cells still available. \<^verbatim>\<open>malloc\<close> returns null when the
  request does not fit; the memory it returns is indeterminate (\<open>junk\<close>).
\<close>

record heap =
  live :: "nat \<rightharpoonup> nat"
  fresh :: nat
  avail :: nat

definition malloc :: "(nat \<Rightarrow> 'a) \<Rightarrow> nat \<Rightarrow> heap \<Rightarrow> 'a ptr option \<times> heap" where
  "malloc junk n h =
     (if avail h < n then (None, h)
      else (Some \<lparr>block = fresh h, offset = 0, cells = map junk [0..<n]\<rparr>,
            h\<lparr>live := (live h)(fresh h \<mapsto> n), fresh := Suc (fresh h), avail := avail h - n\<rparr>))"

definition free :: "'a ptr \<Rightarrow> heap \<Rightarrow> error + heap" where
  "free p h =
     (case live h (block p) of
        None \<Rightarrow> Inl InvalidFree
      | Some n \<Rightarrow>
          if offset p = 0
          then Inr (h\<lparr>live := (live h)(block p := None), avail := avail h + n\<rparr>)
          else Inl InvalidFree)"

definition mat_alloc :: "(nat \<Rightarrow> 'a) \<Rightarrow> nat \<Rightarrow> nat \<Rightarrow> heap \<Rightarrow> error + ('a Mat \<times> heap)" where
  "mat_alloc junk r c h =
     (case malloc junk (r * c) h of (p, h') \<Rightarrow>
        ebind (NN_ASSERT (p \<noteq> None)) (\<lambda>_.
        Inr (\<lparr>rows = r, cols = c, stride = c, es = p\<rparr>, h')))"

definition mat_free :: "'a Mat \<Rightarrow> heap \<Rightarrow> error + ('a Mat \<times> heap)" where
  "mat_free m h =
     (case es m of
        Some p \<Rightarrow>
          ebind (free p h) (\<lambda>h'.
          Inr (m\<lparr>es := None, stride := 0, cols := 0, rows := 0\<rparr>, h'))
      | None \<Rightarrow> Inr (m\<lparr>stride := 0, cols := 0, rows := 0\<rparr>, h))"

subsection \<open>Element-wise operations and the product\<close>

definition mat_fill :: "'a Mat \<Rightarrow> 'a \<Rightarrow> error + 'a Mat" where
  "mat_fill m x = foldM (\<lambda>(i, j) m. MAT_SET m i j x) (mat_slots m) m"

definition mat_sum :: "'a Mat \<Rightarrow> 'a Mat \<Rightarrow> error + 'a::plus Mat" where
  "mat_sum dst a =
     ebind (NN_ASSERT (rows dst = rows a)) (\<lambda>_.
     ebind (NN_ASSERT (cols dst = cols a)) (\<lambda>_.
     foldM (\<lambda>(i, j) dst.
         ebind (MAT_AT dst i j) (\<lambda>d.
         ebind (MAT_AT a i j) (\<lambda>x.
         MAT_SET dst i j (d + x))))
       (mat_slots dst) dst))"

definition mat_sig :: "('a \<Rightarrow> 'a) \<Rightarrow> 'a Mat \<Rightarrow> error + 'a::{one,plus,uminus,inverse} Mat" where
  "mat_sig expf m =
     foldM (\<lambda>(i, j) m.
         ebind (MAT_AT m i j) (\<lambda>x.
         MAT_SET m i j (sigmoidf expf x)))
       (mat_slots m) m"

definition mat_dot :: "'a Mat \<Rightarrow> 'a Mat \<Rightarrow> 'a Mat \<Rightarrow> error + 'a::{plus,times} Mat" where
  "mat_dot dst a b =
     ebind (NN_ASSERT (cols a = rows b)) (\<lambda>_.
     let n = cols a in
     ebind (NN_ASSERT (rows dst = rows a)) (\<lambda>_.
     ebind (NN_ASSERT (cols dst = cols b)) (\<lambda>_.
     foldM (\<lambda>(i, j).
         foldM (\<lambda>k dst.
             ebind (MAT_AT dst i j) (\<lambda>d.
             ebind (MAT_AT a i k) (\<lambda>x.
             ebind (MAT_AT b k j) (\<lambda>y.
             MAT_SET dst i j (d + x * y)))))
           [0..<n])
       (mat_slots dst) dst)))"

text \<open>
  \<^verbatim>\<open>mat_row\<close> takes the address of element \<open>(row, 0)\<close>: the pointer moves
  \<open>row * stride\<close> elements forward in its allocation.
\<close>

definition mat_row :: "'a Mat \<Rightarrow> nat \<Rightarrow> 'a Mat" where
  "mat_row m row =
     \<lparr>rows = 1, cols = cols m, stride = stride m,
      es = map_option (\<lambda>p. p\<lparr>offset := offset p + row * stride m,
                              cells := drop (row * stride m) (cells p)\<rparr>) (es m)\<rparr>"

definition mat_copy :: "'a Mat \<Rightarrow> 'a Mat \<Rightarrow> error + 'a Mat" where
  "mat_copy dst src =
     ebind (NN_ASSERT (rows dst = rows src)) (\<lambda>_.
     ebind (NN_ASSERT (cols dst = cols src)) (\<lambda>_.
     foldM (\<lambda>(i, j) dst.
         ebind (MAT_AT src i j) (\<lambda>x.
         MAT_SET dst i j x))
       (mat_slots dst) dst))"

section \<open>The network\<close>

record 'a Xor =
  a0 :: "'a Mat"
  a1 :: "'a Mat"
  a2 :: "'a Mat"
  w1 :: "'a Mat"
  b1 :: "'a Mat"
  w2 :: "'a Mat"
  b2 :: "'a Mat"
  owns_matrices :: int

text \<open>
  \<^verbatim>\<open>xor_alloc\<close> fills every field of the structure it is given; \<open>junk\<close> is the
  indeterminate content of the seven new buffers.
\<close>

definition xor_alloc :: "(nat \<Rightarrow> 'a) \<Rightarrow> heap \<Rightarrow> error + ('a Xor \<times> heap)" where
  "xor_alloc junk h =
     ebind (mat_alloc junk 1 2 h) (\<lambda>(m_a0, h).
     ebind (mat_alloc junk 2 2 h) (\<lambda>(m_w1, h).
     ebind (mat_alloc junk 1 2 h) (\<lambda>(m_b1, h).
     ebind (mat_alloc junk 1 2 h) (\<lambda>(m_a1, h).
     ebind (mat_alloc junk 2 1 h) (\<lambda>(m_w2, h).
     ebind (mat_alloc junk 1 1 h) (\<lambda>(m_b2, h).
     ebind (mat_alloc junk 1 1 h) (\<lambda>(m_a2, h).
     Inr (\<lparr>a0 = m_a0, a1 = m_a1, a2 = m_a2, w1 = m_w1, b1 = m_b1, w2 = m_w2, b2 = m_b2,
           owns_matrices = 1\<rparr>, h))))))))"

definition xor_free :: "'a Xor \<Rightarrow> heap \<Rightarrow> error + ('a Xor \<times> heap)" where
  "xor_free m h =
     ebind (if owns_matrices m \<noteq> 0 then
          ebind (mat_free (a0 m) h) (\<lambda>(x, h). let m = m\<lparr>a0 := x\<rparr> in
          ebind (mat_free (a1 m) h) (\<lambda>(x, h). let m = m\<lparr>a1 := x\<rparr> in
          ebind (mat_free (a2 m) h) (\<lambda>(x, h). let m = m\<lparr>a2 := x\<rparr> in
          ebind (mat_free (w1 m) h) (\<lambda>(x, h). let m = m\<lparr>w1 := x\<rparr> in
          ebind (mat_free (b1 m) h) (\<lambda>(x, h). let m = m\<lparr>b1 := x\<rparr> in
          ebind (mat_free (w2 m) h) (\<lambda>(x, h). let m = m\<lparr>w2 := x\<rparr> in
          ebind (mat_free (b2 m) h) (\<lambda>(x, h). let m = m\<lparr>b2 := x\<rparr> in
          Inr (m, h))))))))
        else Inr (m, h)) (\<lambda>(m, h).
     Inr (m\<lparr>owns_matrices := 0\<rparr>, h))"

definition forward_xor :: "('a \<Rightarrow> 'a) \<Rightarrow> 'a Xor \<Rightarrow> error + 'a::{one,plus,uminus,times,inverse} Xor" where
  "forward_xor expf m =
     ebind (mat_dot (a1 m) (a0 m) (w1 m)) (\<lambda>x. let m = m\<lparr>a1 := x\<rparr> in
     ebind (mat_sum (a1 m) (b1 m)) (\<lambda>x. let m = m\<lparr>a1 := x\<rparr> in
     ebind (mat_sig expf (a1 m)) (\<lambda>x. let m = m\<lparr>a1 := x\<rparr> in
     ebind (mat_dot (a2 m) (a1 m) (w2 m)) (\<lambda>x. let m = m\<lparr>a2 := x\<rparr> in
     ebind (mat_sum (a2 m) (b2 m)) (\<lambda>x. let m = m\<lparr>a2 := x\<rparr> in
     ebind (mat_sig expf (a2 m)) (\<lambda>x. let m = m\<lparr>a2 := x\<rparr> in
     Inr m))))))"

text \<open>
  \<^verbatim>\<open>cost\<close> returns the mean squared error; the activations it overwrites on the way
  are returned with it. \<open>of_size\<close> is the conversion \<^verbatim>\<open>(float)n\<close>. \<open>cost_row\<close> is
  the body of its loop over the training rows, on the network and the running sum.
\<close>

definition cost_row ::
  "('a \<Rightarrow> 'a) \<Rightarrow> 'a Mat \<Rightarrow> 'a Mat \<Rightarrow> nat \<Rightarrow> 'a Xor \<times> 'a
    \<Rightarrow> error + ('a::{one,plus,minus,uminus,times,inverse} Xor \<times> 'a)" where
  "cost_row expf ti to i = (\<lambda>(m, c).
     let x = mat_row ti i; y = mat_row to i in
     ebind (mat_copy (a0 m) x) (\<lambda>x0. let m = m\<lparr>a0 := x0\<rparr> in
     ebind (forward_xor expf m) (\<lambda>m.
     let q = cols to in
     ebind (foldM (\<lambda>j c.
         ebind (MAT_AT (a2 m) 0 j) (\<lambda>out.
         ebind (MAT_AT y 0 j) (\<lambda>e.
         let d = out - e in Inr (c + d * d))))
       [0..<q] c) (\<lambda>c.
     Inr (m, c)))))"

definition cost ::
  "('a \<Rightarrow> 'a) \<Rightarrow> (nat \<Rightarrow> 'a) \<Rightarrow> 'a Xor \<Rightarrow> 'a Mat \<Rightarrow> 'a Mat
    \<Rightarrow> error + ('a::{zero,one,plus,minus,uminus,times,inverse} Xor \<times> 'a)" where
  "cost expf of_size m ti to =
     ebind (NN_ASSERT (rows ti = rows to)) (\<lambda>_.
     ebind (NN_ASSERT (cols to = cols (a2 m))) (\<lambda>_.
     ebind (NN_ASSERT (cols ti = cols (a0 m))) (\<lambda>_.
     let n = rows ti in
     ebind (foldM (cost_row expf ti to) [0..<n] (m, 0)) (\<lambda>(m, c).
     Inr (m, c / of_size n)))))"

text \<open>
  \<^verbatim>\<open>finite_diff\<close> and \<^verbatim>\<open>xor_learn\<close> repeat one loop for \<^verbatim>\<open>w1\<close>, \<^verbatim>\<open>b1\<close>,
  \<^verbatim>\<open>w2\<close> and \<^verbatim>\<open>b2\<close>. In each copy \<open>i\<close> runs below the matrix's \<^verbatim>\<open>cols\<close>,
  \<open>j\<close> below its \<^verbatim>\<open>rows\<close>, and the element touched is \<^verbatim>\<open>MAT_AT(.., i, j)\<close>.
\<close>

datatype param = W1 | B1 | W2 | B2

fun get_param :: "param \<Rightarrow> 'a Xor \<Rightarrow> 'a Mat" where
  "get_param W1 m = w1 m"
| "get_param B1 m = b1 m"
| "get_param W2 m = w2 m"
| "get_param B2 m = b2 m"

fun set_param :: "param \<Rightarrow> 'a Mat \<Rightarrow> 'a Xor \<Rightarrow> 'a Xor" where
  "set_param W1 x m = m\<lparr>w1 := x\<rparr>"
| "set_param B1 x m = m\<lparr>b1 := x\<rparr>"
| "set_param W2 x m = m\<lparr>w2 := x\<rparr>"
| "set_param B2 x m = m\<lparr>b2 := x\<rparr>"

definition param_slots :: "'a Mat \<Rightarrow> (nat \<times> nat) list" where
  "param_slots m = concat (map (\<lambda>i. map (\<lambda>j. (i, j)) [0..<rows m]) [0..<cols m])"

definition diff_slot ::
  "('a \<Rightarrow> 'a) \<Rightarrow> (nat \<Rightarrow> 'a) \<Rightarrow> 'a Mat \<Rightarrow> 'a Mat \<Rightarrow> 'a \<Rightarrow> 'a \<Rightarrow> param \<Rightarrow> nat \<times> nat
    \<Rightarrow> 'a Xor \<times> 'a Xor
    \<Rightarrow> error + ('a::{zero,one,plus,minus,uminus,times,inverse} Xor \<times> 'a Xor)" where
  "diff_slot expf of_size ti to eps c p = (\<lambda>(i, j) (m, g).
     ebind (MAT_AT (get_param p m) i j) (\<lambda>saved.
     ebind (MAT_AT (get_param p m) i j) (\<lambda>v.
     ebind (MAT_SET (get_param p m) i j (v + eps)) (\<lambda>x. let m = set_param p x m in
     ebind (cost expf of_size m ti to) (\<lambda>(m, c1).
     ebind (MAT_SET (get_param p g) i j ((c1 - c) / eps)) (\<lambda>x. let g = set_param p x g in
     ebind (MAT_SET (get_param p m) i j saved) (\<lambda>x. let m = set_param p x m in
     Inr (m, g))))))))"

definition diff_param ::
  "('a \<Rightarrow> 'a) \<Rightarrow> (nat \<Rightarrow> 'a) \<Rightarrow> 'a Mat \<Rightarrow> 'a Mat \<Rightarrow> 'a \<Rightarrow> 'a \<Rightarrow> param
    \<Rightarrow> 'a Xor \<times> 'a Xor
    \<Rightarrow> error + ('a::{zero,one,plus,minus,uminus,times,inverse} Xor \<times> 'a Xor)" where
  "diff_param expf of_size ti to eps c p = (\<lambda>(m, g).
     foldM (diff_slot expf of_size ti to eps c p) (param_slots (get_param p m)) (m, g))"

definition finite_diff ::
  "('a \<Rightarrow> 'a) \<Rightarrow> (nat \<Rightarrow> 'a) \<Rightarrow> 'a Xor \<Rightarrow> 'a Xor \<Rightarrow> 'a Mat \<Rightarrow> 'a Mat \<Rightarrow> 'a
    \<Rightarrow> error + ('a::{zero,one,plus,minus,uminus,times,inverse} Xor \<times> 'a Xor)" where
  "finite_diff expf of_size m g ti to eps =
     ebind (cost expf of_size m ti to) (\<lambda>(m, c).
     foldM (diff_param expf of_size ti to eps c) [W1, B1, W2, B2] (m, g))"

definition learn_slot :: "'a Xor \<Rightarrow> 'a \<Rightarrow> param \<Rightarrow> nat \<times> nat \<Rightarrow> 'a Xor \<Rightarrow> error + 'a::{minus,times} Xor" where
  "learn_slot g rate p = (\<lambda>(i, j) m.
     ebind (MAT_AT (get_param p m) i j) (\<lambda>v.
     ebind (MAT_AT (get_param p g) i j) (\<lambda>d.
     ebind (MAT_SET (get_param p m) i j (v - rate * d)) (\<lambda>x.
     Inr (set_param p x m)))))"

definition learn_param :: "'a Xor \<Rightarrow> 'a \<Rightarrow> param \<Rightarrow> 'a Xor \<Rightarrow> error + 'a::{minus,times} Xor" where
  "learn_param g rate p m = foldM (learn_slot g rate p) (param_slots (get_param p m)) m"

definition xor_learn :: "'a Xor \<Rightarrow> 'a Xor \<Rightarrow> 'a \<Rightarrow> error + 'a::{minus,times} Xor" where
  "xor_learn m g rate = foldM (learn_param g rate) [W1, B1, W2, B2] m"

section \<open>Notions used to state the properties\<close>

text \<open>
  \<open>buf\<close> is the cell sequence a matrix's pointer refers to (empty for a null
  pointer), \<open>entry m i j\<close> the cell \<^verbatim>\<open>MAT_AT(m, i, j)\<close> designates and \<open>poke\<close> the
  matrix after one cell has been overwritten. \<open>shape\<close> is everything about a
  matrix except the contents of its cells. \<open>mat_ok\<close> is the invariant of the data
  model: the stride is at least the column count, and the buffer holds every element
  \<open>(i, j)\<close> with \<open>i < rows\<close> and \<open>j < cols\<close>.
\<close>

definition buf :: "'a Mat \<Rightarrow> 'a list" where
  "buf m = (case es m of None \<Rightarrow> [] | Some p \<Rightarrow> cells p)"

definition poke :: "'a Mat \<Rightarrow> nat \<Rightarrow> 'a \<Rightarrow> 'a Mat" where
  "poke m k v = m\<lparr>es := map_option (\<lambda>p. p\<lparr>cells := (cells p)[k := v]\<rparr>) (es m)\<rparr>"

definition shape :: "'a Mat \<Rightarrow> nat \<times> nat \<times> nat \<times> (nat \<times> nat \<times> nat) option" where
  "shape m = (rows m, cols m, stride m,
              map_option (\<lambda>p. (block p, offset p, length (cells p))) (es m))"

definition mat_ok :: "'a Mat \<Rightarrow> bool" where
  "mat_ok m \<longleftrightarrow> cols m \<le> stride m \<and>
     (rows m = 0 \<or> cols m = 0 \<or> (rows m - 1) * stride m + cols m \<le> length (buf m))"

definition entry :: "'a Mat \<Rightarrow> nat \<Rightarrow> nat \<Rightarrow> 'a" where
  "entry m i j = buf m ! (i * stride m + j)"

text \<open>Three small matrices, for evaluating the product: a destination that is not zero.\<close>

definition wit_dst :: "real Mat" where
  "wit_dst = \<lparr>rows = 1, cols = 2, stride = 2, es = Some \<lparr>block = 1, offset = 0, cells = [5, 7]\<rparr>\<rparr>"
definition wit_a :: "real Mat" where
  "wit_a = \<lparr>rows = 1, cols = 2, stride = 2, es = Some \<lparr>block = 2, offset = 0, cells = [1, 2]\<rparr>\<rparr>"
definition wit_b :: "real Mat" where
  "wit_b = \<lparr>rows = 2, cols = 2, stride = 2, es = Some \<lparr>block = 3, offset = 0, cells = [1, 2, 3, 4]\<rparr>\<rparr>"

definition heap0 :: heap where
  "heap0 = \<lparr>live = Map.empty, fresh = 1, avail = 1024\<rparr>"

text \<open>
  The network \<^verbatim>\<open>xor_alloc\<close> builds on \<open>heap0\<close> when the new memory reads as
  zero, and the heap after the seven allocations.
\<close>

definition net0 :: "real Xor" where
  "net0 = \<lparr>a0 = \<lparr>rows = 1, cols = 2, stride = 2, es = Some \<lparr>block = 1, offset = 0, cells = [0, 0]\<rparr>\<rparr>,
           a1 = \<lparr>rows = 1, cols = 2, stride = 2, es = Some \<lparr>block = 4, offset = 0, cells = [0, 0]\<rparr>\<rparr>,
           a2 = \<lparr>rows = 1, cols = 1, stride = 1, es = Some \<lparr>block = 7, offset = 0, cells = [0]\<rparr>\<rparr>,
           w1 = \<lparr>rows = 2, cols = 2, stride = 2, es = Some \<lparr>block = 2, offset = 0, cells = [0, 0, 0, 0]\<rparr>\<rparr>,
           b1 = \<lparr>rows = 1, cols = 2, stride = 2, es = Some \<lparr>block = 3, offset = 0, cells = [0, 0]\<rparr>\<rparr>,
           w2 = \<lparr>rows = 2, cols = 1, stride = 1, es = Some \<lparr>block = 5, offset = 0, cells = [0, 0]\<rparr>\<rparr>,
           b2 = \<lparr>rows = 1, cols = 1, stride = 1, es = Some \<lparr>block = 6, offset = 0, cells = [0]\<rparr>\<rparr>,
           owns_matrices = 1\<rparr>"

definition heap1 :: heap where
  "heap1 = \<lparr>live = [1 \<mapsto> 2, 2 \<mapsto> 4, 3 \<mapsto> 2, 4 \<mapsto> 2, 5 \<mapsto> 2, 6 \<mapsto> 1, 7 \<mapsto> 1],
            fresh = 8, avail = 1010\<rparr>"

text \<open>
  \<open>span m\<close> is the set of cell positions that hold entries of \<open>m\<close>; \<open>touched m m'\<close>
  says that \<open>m'\<close> is \<open>m\<close> with nothing but such cells overwritten.
\<close>

definition span :: "'a Mat \<Rightarrow> nat set" where
  "span m = (\<lambda>(i, j). i * stride m + j) ` ({0..<rows m} \<times> {0..<cols m})"

definition touched :: "'a Mat \<Rightarrow> 'a Mat \<Rightarrow> bool" where
  "touched m m' \<longleftrightarrow> shape m' = shape m \<and> (\<forall>k. k \<notin> span m \<longrightarrow> buf m' ! k = buf m ! k)"

text \<open>
  \<open>net_ok\<close>: the seven matrices satisfy the invariant and their dimensions pass
  every assertion of a forward pass.
\<close>

definition net_shape ::
  "'a Xor \<Rightarrow> (nat \<times> nat \<times> nat \<times> (nat \<times> nat \<times> nat) option) list" where
  "net_shape m = [shape (a0 m), shape (a1 m), shape (a2 m),
                  shape (w1 m), shape (b1 m), shape (w2 m), shape (b2 m)]"

definition net_ok :: "'a Xor \<Rightarrow> bool" where
  "net_ok m \<longleftrightarrow>
     mat_ok (a0 m) \<and> mat_ok (a1 m) \<and> mat_ok (a2 m) \<and>
     mat_ok (w1 m) \<and> mat_ok (b1 m) \<and> mat_ok (w2 m) \<and> mat_ok (b2 m) \<and>
     cols (a0 m) = rows (w1 m) \<and> rows (a1 m) = rows (a0 m) \<and> cols (a1 m) = cols (w1 m) \<and>
     rows (a1 m) = rows (b1 m) \<and> cols (a1 m) = cols (b1 m) \<and>
     cols (a1 m) = rows (w2 m) \<and> rows (a2 m) = rows (a1 m) \<and> cols (a2 m) = cols (w2 m) \<and>
     rows (a2 m) = rows (b2 m) \<and> cols (a2 m) = cols (b2 m)"

text \<open>
  What the specification asks of a caller before a forward pass: \<^verbatim>\<open>a1\<close> and
  \<^verbatim>\<open>a2\<close> set to zero, here with the library's own \<^verbatim>\<open>mat_fill\<close>.
\<close>

definition reset_activations :: "'a Xor \<Rightarrow> error + 'a::zero Xor" where
  "reset_activations m =
     ebind (mat_fill (a1 m) 0) (\<lambda>x. let m = m\<lparr>a1 := x\<rparr> in
     ebind (mat_fill (a2 m) 0) (\<lambda>x. let m = m\<lparr>a2 := x\<rparr> in
     Inr m))"

text \<open>The network after one forward pass from \<open>net0\<close>, and after a second one.\<close>

definition net1 :: "real Xor" where
  "net1 = net0\<lparr>a1 := (a1 net0)\<lparr>es := Some \<lparr>block = 4, offset = 0, cells = [1/2, 1/2]\<rparr>\<rparr>,
               a2 := (a2 net0)\<lparr>es := Some \<lparr>block = 7, offset = 0, cells = [1/2]\<rparr>\<rparr>\<rparr>"

definition net2 :: "real Xor" where
  "net2 = net0\<lparr>a1 := (a1 net0)\<lparr>es := Some \<lparr>block = 4, offset = 0,
                   cells = [1 / (1 + exp (- (1/2))), 1 / (1 + exp (- (1/2)))]\<rparr>\<rparr>,
               a2 := (a2 net0)\<lparr>es := Some \<lparr>block = 7, offset = 0,
                   cells = [1 / (1 + exp (- (1/2)))]\<rparr>\<rparr>\<rparr>"

text \<open>
  \<open>same_params\<close>: two network states have the same four parameter matrices, cell for
  cell. \<open>cost_ready\<close>: the network and the training pair pass every assertion of
  \<^verbatim>\<open>cost\<close> and satisfy the invariant. \<open>slot_in p m (i, j)\<close>: the cell
  \<^verbatim>\<open>MAT_AT(p, i, j)\<close> of parameter matrix \<open>p\<close> lies in its buffer; \<open>slots_ok\<close>: that
  holds for every index pair the four parameter loops visit, in both networks.
\<close>

definition same_params :: "'a Xor \<Rightarrow> 'a Xor \<Rightarrow> bool" where
  "same_params m m' \<longleftrightarrow> w1 m' = w1 m \<and> b1 m' = b1 m \<and> w2 m' = w2 m \<and> b2 m' = b2 m"

definition cost_ready :: "'a Xor \<Rightarrow> 'a Mat \<Rightarrow> 'a Mat \<Rightarrow> bool" where
  "cost_ready m ti to \<longleftrightarrow>
     net_ok m \<and> rows (a0 m) = 1 \<and> mat_ok ti \<and> mat_ok to \<and>
     rows ti = rows to \<and> cols to = cols (a2 m) \<and> cols ti = cols (a0 m)"

definition slot_in :: "param \<Rightarrow> 'a Xor \<Rightarrow> nat \<times> nat \<Rightarrow> bool" where
  "slot_in p m = (\<lambda>(i, j). i * stride (get_param p m) + j < length (buf (get_param p m)))"

definition slots_ok :: "'a Xor \<Rightarrow> 'a Xor \<Rightarrow> bool" where
  "slots_ok m g \<longleftrightarrow>
     (\<forall>p\<in>set [W1, B1, W2, B2]. \<forall>s\<in>set (param_slots (get_param p m)). slot_in p m s \<and> slot_in p g s)"

text \<open>
  What \<^verbatim>\<open>mat_alloc(r, c)\<close> returns, whatever the contents: an \<open>r\<close> by \<open>c\<close> matrix
  with stride \<open>c\<close> on a buffer of exactly \<open>r * c\<close> cells; and a network whose seven
  matrices are as \<^verbatim>\<open>xor_alloc\<close> allocates them.
\<close>

definition fresh_mat :: "nat \<Rightarrow> nat \<Rightarrow> 'a Mat \<Rightarrow> bool" where
  "fresh_mat r c m \<longleftrightarrow>
     rows m = r \<and> cols m = c \<and> stride m = c \<and> es m \<noteq> None \<and> length (buf m) = r * c"

definition alloc_net :: "'a Xor \<Rightarrow> bool" where
  "alloc_net m \<longleftrightarrow>
     fresh_mat 1 2 (a0 m) \<and> fresh_mat 2 2 (w1 m) \<and> fresh_mat 1 2 (b1 m) \<and>
     fresh_mat 1 2 (a1 m) \<and> fresh_mat 2 1 (w2 m) \<and> fresh_mat 1 1 (b2 m) \<and>
     fresh_mat 1 1 (a2 m)"

text \<open>
  The training data of \<^verbatim>\<open>main\<close>: the array \<^verbatim>\<open>td\<close> and the two views on it,
  inputs in columns 0 and 1, expected output in column 2, both with stride 3.
\<close>

definition td :: "real list" where
  "td = [0, 0, 0,
         0, 1, 1,
         1, 0, 1,
         1, 1, 0]"

definition xor_ti :: "real Mat" where
  "xor_ti = \<lparr>rows = 4, cols = 2, stride = 3, es = Some \<lparr>block = 0, offset = 0, cells = td\<rparr>\<rparr>"

definition xor_to :: "real Mat" where
  "xor_to = \<lparr>rows = 4, cols = 1, stride = 3,
             es = Some \<lparr>block = 0, offset = 2, cells = drop 2 td\<rparr>\<rparr>"

text \<open>The gradient network: the second \<^verbatim>\<open>xor_alloc\<close> of \<^verbatim>\<open>main\<close>.\<close>

definition grad0 :: "real Xor" where
  "grad0 = \<lparr>a0 = \<lparr>rows = 1, cols = 2, stride = 2, es = Some \<lparr>block = 8, offset = 0, cells = [0, 0]\<rparr>\<rparr>,
           a1 = \<lparr>rows = 1, cols = 2, stride = 2, es = Some \<lparr>block = 11, offset = 0, cells = [0, 0]\<rparr>\<rparr>,
           a2 = \<lparr>rows = 1, cols = 1, stride = 1, es = Some \<lparr>block = 14, offset = 0, cells = [0]\<rparr>\<rparr>,
           w1 = \<lparr>rows = 2, cols = 2, stride = 2, es = Some \<lparr>block = 9, offset = 0, cells = [0, 0, 0, 0]\<rparr>\<rparr>,
           b1 = \<lparr>rows = 1, cols = 2, stride = 2, es = Some \<lparr>block = 10, offset = 0, cells = [0, 0]\<rparr>\<rparr>,
           w2 = \<lparr>rows = 2, cols = 1, stride = 1, es = Some \<lparr>block = 12, offset = 0, cells = [0, 0]\<rparr>\<rparr>,
           b2 = \<lparr>rows = 1, cols = 1, stride = 1, es = Some \<lparr>block = 13, offset = 0, cells = [0]\<rparr>\<rparr>,
           owns_matrices = 1\<rparr>"

text \<open>
  The same two networks with \<^verbatim>\<open>b1\<close> on a buffer that has one cell to spare, as a
  view into a larger allocation has.
\<close>

definition net_pad :: "real Xor" where
  "net_pad = net0\<lparr>b1 := (b1 net0)\<lparr>es := Some \<lparr>block = 3, offset = 0, cells = [0, 0, 0]\<rparr>\<rparr>\<rparr>"

definition grad_pad :: "real Xor" where
  "grad_pad = grad0\<lparr>b1 := (b1 grad0)\<lparr>es := Some \<lparr>block = 10, offset = 0, cells = [0, 0, 0]\<rparr>\<rparr>\<rparr>"

section \<open>Sequencing, element access and loops\<close>

lemma ebind_Inl [simp]: "ebind (Inl e) f = Inl e"
  by (simp add: ebind_def)

lemma ebind_Inr [simp]: "ebind (Inr x) f = f x"
  by (simp add: ebind_def)

lemma ebind_eq_Inr: "ebind r f = Inr y \<longleftrightarrow> (\<exists>x. r = Inr x \<and> f x = Inr y)"
  by (cases r) simp_all

lemma ebind_eq_Inl: "ebind r f = Inl e \<longleftrightarrow> r = Inl e \<or> (\<exists>x. r = Inr x \<and> f x = Inl e)"
  by (cases r) simp_all

lemma NN_ASSERT_True [simp]: "NN_ASSERT True = Inr ()"
  by (simp add: NN_ASSERT_def)

lemma NN_ASSERT_False [simp]: "NN_ASSERT False = Inl AssertFail"
  by (simp add: NN_ASSERT_def)

lemma foldM_append: "foldM f (xs @ ys) s = ebind (foldM f xs s) (foldM f ys)"
  by (induction xs arbitrary: s) (auto split: sum.splits)

lemma foldM_total:
  assumes "P s" and "\<And>x t. x \<in> set xs \<Longrightarrow> P t \<Longrightarrow> \<exists>t'. f x t = Inr t' \<and> P t'"
  shows "\<exists>s'. foldM f xs s = Inr s' \<and> P s'"
  using assms
proof (induction xs arbitrary: s)
  case Nil
  then show ?case by simp
next
  case (Cons x xs)
  from Cons.prems obtain t where t: "f x s = Inr t" "P t" by (meson list.set_intros(1))
  have "\<exists>s'. foldM f xs t = Inr s' \<and> P s'"
    by (rule Cons.IH[OF t(2)]) (simp add: Cons.prems(2))
  with t show ?case by simp
qed

lemma foldM_inv:
  assumes "foldM f xs s = Inr s'" and "P s"
    and "\<And>x t t'. x \<in> set xs \<Longrightarrow> P t \<Longrightarrow> f x t = Inr t' \<Longrightarrow> P t'"
  shows "P s'"
  using assms
proof (induction xs arbitrary: s)
  case Nil
  then show ?case by simp
next
  case (Cons x xs)
  from Cons.prems(1) obtain t where t: "f x s = Inr t" "foldM f xs t = Inr s'"
    by (auto split: sum.splits)
  have "P t" by (rule Cons.prems(3)[OF _ Cons.prems(2) t(1)]) simp
  show ?case
  proof (rule Cons.IH[OF t(2) \<open>P t\<close>])
    fix y u u' assume "y \<in> set xs" "P u" "f y u = Inr u'"
    then show "P u'" using Cons.prems(3)[of y u u'] by simp
  qed
qed

lemma foldM_error:
  assumes "foldM f xs s = Inl e"
  shows "\<exists>x\<in>set xs. \<exists>t. f x t = Inl e"
  using assms
  by (induction xs arbitrary: s) (auto split: sum.splits)

lemma buf_poke [simp]: "buf (poke m k v) = (buf m)[k := v]"
  by (cases "es m") (simp_all add: buf_def poke_def)

lemma dims_poke [simp]:
  "rows (poke m k v) = rows m" "cols (poke m k v) = cols m" "stride (poke m k v) = stride m"
  by (simp_all add: poke_def)

lemma shape_poke [simp]: "shape (poke m k v) = shape m"
  by (cases "es m") (simp_all add: shape_def poke_def)

lemma poke_poke [simp]: "poke (poke m k v) k w = poke m k w"
  by (cases "es m") (simp_all add: poke_def)

lemma poke_same [simp]: "poke m k (buf m ! k) = m"
  by (cases "es m") (simp_all add: poke_def buf_def)

lemma shape_dims:
  assumes "shape m' = shape m"
  shows "rows m' = rows m" "cols m' = cols m" "stride m' = stride m"
    "length (buf m') = length (buf m)"
  using assms by (auto simp: shape_def buf_def split: option.splits)

lemma mat_ok_shape: "shape m' = shape m \<Longrightarrow> mat_ok m' = mat_ok m"
  using shape_dims[of m' m] by (simp add: mat_ok_def)

lemma MAT_AT_Inr: "i * stride m + j < length (buf m) \<Longrightarrow> MAT_AT m i j = Inr (entry m i j)"
  by (cases "es m") (simp_all add: MAT_AT_def buf_def entry_def)

lemma MAT_AT_eq_Inr:
  "MAT_AT m i j = Inr v \<longleftrightarrow> i * stride m + j < length (buf m) \<and> v = entry m i j"
  by (cases "es m") (auto simp: MAT_AT_def buf_def entry_def)

lemma MAT_AT_no_assert: "MAT_AT m i j \<noteq> Inl AssertFail"
  by (cases "es m") (simp_all add: MAT_AT_def)

lemma MAT_AT_fault: "length (buf m) \<le> i * stride m + j \<Longrightarrow> es m \<noteq> None \<Longrightarrow>
    MAT_AT m i j = Inl OutOfBounds"
  by (cases "es m") (simp_all add: MAT_AT_def buf_def)

lemma MAT_SET_Inr:
  "i * stride m + j < length (buf m) \<Longrightarrow> MAT_SET m i j v = Inr (poke m (i * stride m + j) v)"
  by (cases "es m") (simp_all add: MAT_SET_def buf_def poke_def)

lemma MAT_SET_eq_Inr:
  "MAT_SET m i j v = Inr m' \<longleftrightarrow>
     i * stride m + j < length (buf m) \<and> m' = poke m (i * stride m + j) v"
  by (cases "es m") (auto simp: MAT_SET_def buf_def poke_def)

lemma MAT_SET_no_assert: "MAT_SET m i j v \<noteq> Inl AssertFail"
  by (cases "es m") (simp_all add: MAT_SET_def)

lemma mat_ok_addr:
  assumes "mat_ok m" "i < rows m" "j < cols m"
  shows "i * stride m + j < length (buf m)"
proof -
  have "i \<le> rows m - 1" using assms(2) by simp
  then have "i * stride m \<le> (rows m - 1) * stride m" by (rule mult_le_mono1)
  moreover have "(rows m - 1) * stride m + cols m \<le> length (buf m)"
    using assms by (auto simp: mat_ok_def)
  ultimately show ?thesis using assms(3) by linarith
qed

lemma addr_inj:
  assumes "c \<le> (s::nat)" "j < c" "j' < c" "i * s + j = i' * s + j'"
  shows "i = i' \<and> j = j'"
proof -
  have s: "j < s" "j' < s" using assms by simp_all
  have "(i * s + j) div s = i" "(i' * s + j') div s = i'" using s by simp_all
  then have "i = i'" using assms(4) by simp
  then show ?thesis using assms(4) by simp
qed

lemma set_mat_slots [simp]: "set (mat_slots m) = {0..<rows m} \<times> {0..<cols m}"
  by (auto simp: mat_slots_def)

lemma mat_slots_product: "mat_slots m = List.product [0..<rows m] [0..<cols m]"
  by (simp add: mat_slots_def product_concat_map)

lemma distinct_mat_slots: "distinct (mat_slots m)"
  by (simp add: mat_slots_product distinct_product)

lemma set_param_slots [simp]: "set (param_slots m) = {0..<cols m} \<times> {0..<rows m}"
  by (auto simp: param_slots_def)

lemma foldM_poke:
  fixes adr :: "'x \<Rightarrow> nat" and val :: "'x \<Rightarrow> 'a \<Rightarrow> 'a"
  assumes step: "\<And>x m. x \<in> set xs \<Longrightarrow> shape m = shape m0 \<Longrightarrow>
                    f x m = Inr (poke m (adr x) (val x (buf m ! adr x)))"
    and dist: "distinct (map adr xs)"
    and bound: "\<And>x. x \<in> set xs \<Longrightarrow> adr x < length (buf m0)"
  shows "\<exists>m'. foldM f xs m0 = Inr m' \<and> shape m' = shape m0 \<and>
           (\<forall>x\<in>set xs. buf m' ! adr x = val x (buf m0 ! adr x)) \<and>
           (\<forall>k. k \<notin> adr ` set xs \<longrightarrow> buf m' ! k = buf m0 ! k)"
  using assms
proof (induction xs arbitrary: m0)
  case Nil
  then show ?case by simp
next
  case (Cons x xs)
  let ?v = "val x (buf m0 ! adr x)"
  let ?m1 = "poke m0 (adr x) ?v"
  have fx: "f x m0 = Inr ?m1" by (rule Cons.prems(1)) simp_all
  have sh1: "shape ?m1 = shape m0" by simp
  have "\<exists>m'. foldM f xs ?m1 = Inr m' \<and> shape m' = shape ?m1 \<and>
           (\<forall>y\<in>set xs. buf m' ! adr y = val y (buf ?m1 ! adr y)) \<and>
           (\<forall>k. k \<notin> adr ` set xs \<longrightarrow> buf m' ! k = buf ?m1 ! k)"
  proof (rule Cons.IH)
    fix y and m :: "'a Mat" assume "y \<in> set xs" "shape m = shape ?m1"
    then show "f y m = Inr (poke m (adr y) (val y (buf m ! adr y)))"
      using Cons.prems(1)[of y m] by simp
  next
    show "distinct (map adr xs)" using Cons.prems(2) by simp
  next
    fix y assume "y \<in> set xs"
    then show "adr y < length (buf ?m1)" using Cons.prems(3)[of y] by simp
  qed
  then obtain m' where m': "foldM f xs ?m1 = Inr m'" "shape m' = shape ?m1"
      "\<forall>y\<in>set xs. buf m' ! adr y = val y (buf ?m1 ! adr y)"
      "\<forall>k. k \<notin> adr ` set xs \<longrightarrow> buf m' ! k = buf ?m1 ! k"
    by blast
  have notin: "adr x \<notin> adr ` set xs" using Cons.prems(2) by simp
  have bx: "adr x < length (buf m0)" using Cons.prems(3)[of x] by simp
  have 1: "foldM f (x # xs) m0 = Inr m'" using fx m'(1) by simp
  have 2: "buf m' ! adr x = ?v" using m'(4) notin bx by simp
  have 3: "\<forall>y\<in>set xs. buf m' ! adr y = val y (buf m0 ! adr y)"
  proof
    fix y assume y: "y \<in> set xs"
    then have "adr y \<noteq> adr x" using notin by (metis imageI)
    then show "buf m' ! adr y = val y (buf m0 ! adr y)" using m'(3) y by simp
  qed
  have 4: "\<forall>k. k \<notin> adr ` set (x # xs) \<longrightarrow> buf m' ! k = buf m0 ! k"
    using m'(4) by auto
  show ?case using 1 2 3 4 m'(2) sh1 by auto
qed

lemma slot_addr_distinct:
  assumes "cols m \<le> stride m"
  shows "distinct (map (\<lambda>(i, j). i * stride m + j) (mat_slots m))"
proof -
  have "inj_on (\<lambda>(i, j). i * stride m + j) (set (mat_slots m))"
    using assms by (auto simp: inj_on_def dest: addr_inj)
  then show ?thesis by (simp add: distinct_map distinct_mat_slots)
qed

lemma dot_inner:
  fixes dst a b :: "'a::{plus,times} Mat"
  assumes "i * stride dst + j < length (buf dst)"
    and "\<forall>k<n. i * stride a + k < length (buf a)"
    and "\<forall>k<n. k * stride b + j < length (buf b)"
  shows "foldM (\<lambda>k dst.
             ebind (MAT_AT dst i j) (\<lambda>d.
             ebind (MAT_AT a i k) (\<lambda>x.
             ebind (MAT_AT b k j) (\<lambda>y.
             MAT_SET dst i j (d + x * y))))) [0..<n] dst
         = Inr (poke dst (i * stride dst + j)
             (foldl (\<lambda>acc k. acc + entry a i k * entry b k j) (buf dst ! (i * stride dst + j)) [0..<n]))"
  using assms
proof (induction n)
  case 0
  then show ?case by simp
next
  case (Suc n)
  then show ?case
    by (simp add: foldM_append MAT_AT_Inr MAT_SET_Inr entry_def)
qed

lemma mat_dot_result:
  fixes dst a b :: "'a::{plus,times} Mat"
  assumes ok: "mat_ok dst" "mat_ok a" "mat_ok b"
    and sh: "cols a = rows b" "rows dst = rows a" "cols dst = cols b"
  shows "\<exists>dst'. mat_dot dst a b = Inr dst' \<and> shape dst' = shape dst \<and>
     (\<forall>i<rows dst. \<forall>j<cols dst. entry dst' i j =
         foldl (\<lambda>acc k. acc + entry a i k * entry b k j) (entry dst i j) [0..<cols a]) \<and>
     (\<forall>k. k \<notin> (\<lambda>(i, j). i * stride dst + j) ` ({0..<rows dst} \<times> {0..<cols dst}) \<longrightarrow>
          buf dst' ! k = buf dst ! k)"
proof -
  let ?adr = "\<lambda>(i, j). i * stride dst + j"
  let ?val = "\<lambda>(i, j) d. foldl (\<lambda>acc k. acc + entry a i k * entry b k j) d [0..<cols a]"
  let ?f = "\<lambda>(i, j). foldM (\<lambda>k dst.
             ebind (MAT_AT dst i j) (\<lambda>d.
             ebind (MAT_AT a i k) (\<lambda>x.
             ebind (MAT_AT b k j) (\<lambda>y.
             MAT_SET dst i j (d + x * y))))) [0..<cols a]"
  have "\<exists>m'. foldM ?f (mat_slots dst) dst = Inr m' \<and> shape m' = shape dst \<and>
           (\<forall>x\<in>set (mat_slots dst). buf m' ! ?adr x = ?val x (buf dst ! ?adr x)) \<and>
           (\<forall>k. k \<notin> ?adr ` set (mat_slots dst) \<longrightarrow> buf m' ! k = buf dst ! k)"
  proof (rule foldM_poke)
    fix x and m :: "'a Mat"
    assume x: "x \<in> set (mat_slots dst)" and m: "shape m = shape dst"
    obtain i j where ij: "x = (i, j)" by (cases x)
    have r: "i < rows dst" "j < cols dst" using x ij by simp_all
    have d: "i * stride m + j < length (buf m)"
      using mat_ok_addr[OF ok(1) r] shape_dims[OF m] by simp
    have a: "\<forall>k<cols a. i * stride a + k < length (buf a)"
      using mat_ok_addr[OF ok(2)] r sh by simp
    have b: "\<forall>k<cols a. k * stride b + j < length (buf b)"
      using mat_ok_addr[OF ok(3)] r sh by simp
    show "?f x m = Inr (poke m (?adr x) (?val x (buf m ! ?adr x)))"
      using dot_inner[OF d a b] shape_dims[OF m] by (simp add: ij)
  next
    show "distinct (map ?adr (mat_slots dst))"
      using ok(1) by (intro slot_addr_distinct) (simp add: mat_ok_def)
  next
    fix x assume x: "x \<in> set (mat_slots dst)"
    then show "?adr x < length (buf dst)"
      using mat_ok_addr[OF ok(1)] by auto
  qed
  then obtain m' where m': "foldM ?f (mat_slots dst) dst = Inr m'" "shape m' = shape dst"
      "\<forall>x\<in>set (mat_slots dst). buf m' ! ?adr x = ?val x (buf dst ! ?adr x)"
      "\<forall>k. k \<notin> ?adr ` set (mat_slots dst) \<longrightarrow> buf m' ! k = buf dst ! k"
    by blast
  have 1: "mat_dot dst a b = Inr m'"
    using m'(1) sh by (simp add: mat_dot_def)
  have 2: "\<forall>i<rows dst. \<forall>j<cols dst. entry m' i j =
         foldl (\<lambda>acc k. acc + entry a i k * entry b k j) (entry dst i j) [0..<cols a]"
  proof (intro allI impI)
    fix i j assume "i < rows dst" "j < cols dst"
    then have "(i, j) \<in> set (mat_slots dst)" by simp
    from m'(3)[rule_format, OF this] show "entry m' i j =
         foldl (\<lambda>acc k. acc + entry a i k * entry b k j) (entry dst i j) [0..<cols a]"
      using shape_dims[OF m'(2)] by (simp add: entry_def)
  qed
  show ?thesis using 1 2 m'(2) m'(4) by auto
qed

section \<open>The matrix product\<close>

lemma foldl_add_sum:
  fixes d :: "'a::comm_monoid_add"
  shows "foldl (\<lambda>acc k. acc + f k) d [0..<n] = d + (\<Sum>k<n. f k)"
  by (induction n) (simp_all add: add.assoc)

lemma mat_dot_no_assert:
  assumes "cols a = rows b" "rows dst = rows a" "cols dst = cols b"
  shows "mat_dot dst a b \<noteq> Inl AssertFail"
proof
  assume "mat_dot dst a b = Inl AssertFail"
  then have "foldM (\<lambda>(i, j). foldM (\<lambda>k dst.
             ebind (MAT_AT dst i j) (\<lambda>d.
             ebind (MAT_AT a i k) (\<lambda>x.
             ebind (MAT_AT b k j) (\<lambda>y.
             MAT_SET dst i j (d + x * y))))) [0..<cols a]) (mat_slots dst) dst = Inl AssertFail"
    using assms by (simp add: mat_dot_def)
  then obtain x t where "(case x of (i, j) \<Rightarrow> foldM (\<lambda>k dst.
             ebind (MAT_AT dst i j) (\<lambda>d.
             ebind (MAT_AT a i k) (\<lambda>x.
             ebind (MAT_AT b k j) (\<lambda>y.
             MAT_SET dst i j (d + x * y))))) [0..<cols a]) t = Inl AssertFail"
    by (blast dest: foldM_error)
  then obtain i j where "foldM (\<lambda>k dst.
             ebind (MAT_AT dst i j) (\<lambda>d.
             ebind (MAT_AT a i k) (\<lambda>x.
             ebind (MAT_AT b k j) (\<lambda>y.
             MAT_SET dst i j (d + x * y))))) [0..<cols a] t = Inl AssertFail"
    by (cases x) simp
  then obtain k u where "ebind (MAT_AT u i j) (\<lambda>d.
             ebind (MAT_AT a i k) (\<lambda>x.
             ebind (MAT_AT b k j) (\<lambda>y.
             MAT_SET u i j (d + x * y)))) = Inl AssertFail"
    by (blast dest: foldM_error)
  then show False
    by (auto simp: ebind_eq_Inl MAT_AT_no_assert MAT_SET_no_assert)
qed



text \<open>
  Claim C9. \<^verbatim>\<open>mat_dot\<close> fails an assertion exactly when \<open>a.cols \<noteq> b.rows\<close>, or
  \<open>dst.rows \<noteq> a.rows\<close>, or \<open>dst.cols \<noteq> b.cols\<close>; on shape-conforming matrices that
  satisfy the invariant it returns without any failure.
\<close>

theorem mat_dot_shape_failure:
  "(mat_dot dst a b = Inl AssertFail \<longleftrightarrow>
      cols a \<noteq> rows b \<or> rows dst \<noteq> rows a \<or> cols dst \<noteq> cols b)
   \<and> (mat_ok dst \<and> mat_ok a \<and> mat_ok b \<and>
        cols a = rows b \<and> rows dst = rows a \<and> cols dst = cols b \<longrightarrow>
        (\<exists>dst'. mat_dot dst a b = Inr dst'))"
proof (intro conjI iffI impI)
  assume "mat_dot dst a b = Inl AssertFail"
  then show "cols a \<noteq> rows b \<or> rows dst \<noteq> rows a \<or> cols dst \<noteq> cols b"
    using mat_dot_no_assert[of a b dst] by blast
next
  assume "cols a \<noteq> rows b \<or> rows dst \<noteq> rows a \<or> cols dst \<noteq> cols b"
  then show "mat_dot dst a b = Inl AssertFail"
    by (auto simp: mat_dot_def Let_def NN_ASSERT_def)
next
  assume "mat_ok dst \<and> mat_ok a \<and> mat_ok b \<and>
        cols a = rows b \<and> rows dst = rows a \<and> cols dst = cols b"
  then show "\<exists>dst'. mat_dot dst a b = Inr dst'"
    using mat_dot_result[of dst a b] by blast
qed

theorem mat_dot_shape_failure_witness:
  "(\<exists>dst'. mat_dot wit_dst wit_a wit_b = Inr dst') \<and>
   mat_dot wit_b wit_a wit_b = Inl AssertFail"
proof -
  have ok: "mat_ok wit_dst \<and> mat_ok wit_a \<and> mat_ok wit_b \<and> cols wit_a = rows wit_b \<and>
      rows wit_dst = rows wit_a \<and> cols wit_dst = cols wit_b"
    by (simp add: mat_ok_def buf_def wit_dst_def wit_a_def wit_b_def)
  have bad: "cols wit_a \<noteq> rows wit_b \<or> rows wit_b \<noteq> rows wit_a \<or> cols wit_b \<noteq> cols wit_b"
    by (simp add: wit_a_def wit_b_def)
  show ?thesis
    using mat_dot_shape_failure[of wit_dst wit_a wit_b] mat_dot_shape_failure[of wit_b wit_a wit_b]
      ok bad by blast
qed

section \<open>Release\<close>

lemma mat_free_owning:
  "es m = Some p \<Longrightarrow> offset p = 0 \<Longrightarrow> live h (block p) = Some n \<Longrightarrow>
   mat_free m h = Inr (m\<lparr>es := None, stride := 0, cols := 0, rows := 0\<rparr>,
                       h\<lparr>live := (live h)(block p := None), avail := avail h + n\<rparr>)"
  by (simp add: mat_free_def free_def)

lemma xor_free_released: "owns_matrices x = 0 \<Longrightarrow> xor_free x h = Inr (x, h)"
  by (simp add: xor_free_def)

lemma xor_free_clears_flag: "xor_free x h = Inr (x', h') \<Longrightarrow> owns_matrices x' = 0"
  by (auto simp: xor_free_def ebind_eq_Inr split: if_splits)

text \<open>
  The first \<^verbatim>\<open>xor_free\<close> on a network that owns seven distinct live allocations
  succeeds, releases exactly those seven and leaves every pointer null.
\<close>

lemma xor_free_owning:
  assumes own: "owns_matrices x \<noteq> 0"
    and es: "es (a0 x) = Some p0" "es (a1 x) = Some p1" "es (a2 x) = Some p2"
      "es (w1 x) = Some p3" "es (b1 x) = Some p4" "es (w2 x) = Some p5" "es (b2 x) = Some p6"
    and off: "\<forall>p\<in>set [p0, p1, p2, p3, p4, p5, p6]. offset p = 0 \<and> live h (block p) \<noteq> None"
    and dist: "distinct (map block [p0, p1, p2, p3, p4, p5, p6])"
  shows "\<exists>x' h'. xor_free x h = Inr (x', h') \<and> owns_matrices x' = 0 \<and>
     (\<forall>b. live h' b = (if b \<in> block ` set [p0, p1, p2, p3, p4, p5, p6] then None else live h b)) \<and>
     es (a0 x') = None \<and> es (a1 x') = None \<and> es (a2 x') = None \<and> es (w1 x') = None \<and>
     es (b1 x') = None \<and> es (w2 x') = None \<and> es (b2 x') = None"
proof -
  from off obtain n0 n1 n2 n3 n4 n5 n6 where n:
    "live h (block p0) = Some n0" "live h (block p1) = Some n1" "live h (block p2) = Some n2"
    "live h (block p3) = Some n3" "live h (block p4) = Some n4" "live h (block p5) = Some n5"
    "live h (block p6) = Some n6"
    by auto
  have o: "offset p0 = 0" "offset p1 = 0" "offset p2 = 0" "offset p3 = 0" "offset p4 = 0"
    "offset p5 = 0" "offset p6 = 0"
    using off by simp_all
  show ?thesis
    using own es n o dist
    by (auto simp: xor_free_def mat_free_def free_def)
qed

text \<open>
  Claim C10. \<^verbatim>\<open>mat_free\<close> on a matrix that owns a live allocation succeeds and
  leaves \<open>rows\<close>, \<open>cols\<close> and \<open>stride\<close> zero and the pointer null, with the
  allocation released; released again, the matrix and the heap stay as they are. And
  when \<^verbatim>\<open>xor_free\<close> has returned, a second \<^verbatim>\<open>xor_free\<close> on the same network changes
  neither the network nor the heap: it reaches no \<^verbatim>\<open>free\<close>.
\<close>

theorem release_defined:
  "(es m = Some p \<and> offset p = 0 \<and> live h (block p) \<noteq> None \<longrightarrow>
      (\<exists>m' h'. mat_free m h = Inr (m', h') \<and>
         rows m' = 0 \<and> cols m' = 0 \<and> stride m' = 0 \<and> es m' = None \<and>
         live h' = (live h)(block p := None) \<and>
         mat_free m' h' = Inr (m', h')))
   \<and> (xor_free x k = Inr (x', k') \<longrightarrow> xor_free x' k' = Inr (x', k'))"
proof (intro conjI impI)
  assume a: "es m = Some p \<and> offset p = 0 \<and> live h (block p) \<noteq> None"
  then obtain n where n: "live h (block p) = Some n" by auto
  let ?m = "m\<lparr>es := None, stride := 0, cols := 0, rows := 0\<rparr>"
  let ?h = "h\<lparr>live := (live h)(block p := None), avail := avail h + n\<rparr>"
  have "mat_free m h = Inr (?m, ?h)" using a n by (simp add: mat_free_owning)
  moreover have "mat_free ?m ?h = Inr (?m, ?h)" by (simp add: mat_free_def)
  ultimately show "\<exists>m' h'. mat_free m h = Inr (m', h') \<and>
         rows m' = 0 \<and> cols m' = 0 \<and> stride m' = 0 \<and> es m' = None \<and>
         live h' = (live h)(block p := None) \<and>
         mat_free m' h' = Inr (m', h')"
    by (intro exI[of _ ?m] exI[of _ ?h]) simp
next
  assume "xor_free x k = Inr (x', k')"
  then have "owns_matrices x' = 0" by (rule xor_free_clears_flag)
  then show "xor_free x' k' = Inr (x', k')" by (rule xor_free_released)
qed

lemma xor_alloc_heap0: "xor_alloc (\<lambda>_. 0) heap0 = Inr (net0, heap1)"
  by (simp add: xor_alloc_def mat_alloc_def malloc_def heap0_def net0_def heap1_def upt_rec eval_nat_numeral)

lemma xor_free_net0: "\<exists>x h. xor_free net0 heap1 = Inr (x, h) \<and> owns_matrices x = 0 \<and> es (a0 x) = None \<and> live h = Map.empty \<and> avail h = 1024"
  by (simp add: xor_free_def mat_free_def free_def net0_def heap1_def fun_eq_iff)

theorem release_defined_witness:
  "\<exists>m' h' x' k'.
      mat_free (w1 net0) heap1 = Inr (m', h') \<and> shape m' = (0, 0, 0, None) \<and> live h' 2 = None \<and>
      mat_free m' h' = Inr (m', h') \<and>
      xor_free net0 heap1 = Inr (x', k') \<and> live k' = Map.empty \<and> xor_free x' k' = Inr (x', k')"
proof -
  obtain x' k' where x: "xor_free net0 heap1 = Inr (x', k')" "live k' = Map.empty"
    using xor_free_net0 by blast
  have a: "es (w1 net0) = Some \<lparr>block = 2, offset = 0, cells = [0, 0, 0, 0]\<rparr> \<and>
      offset \<lparr>block = 2, offset = 0, cells = [0, 0, 0, 0::real]\<rparr> = 0 \<and>
      live heap1 (block \<lparr>block = 2, offset = 0, cells = [0, 0, 0, 0::real]\<rparr>) \<noteq> None"
    by (simp add: net0_def heap1_def)
  from release_defined[of "w1 net0" "\<lparr>block = 2, offset = 0, cells = [0, 0, 0, 0]\<rparr>" heap1 net0 heap1 x' k'] a x
  obtain m' h' where "mat_free (w1 net0) heap1 = Inr (m', h')" "rows m' = 0" "cols m' = 0" "stride m' = 0"
       "es m' = None" "live h' = (live heap1)(2 := None)" "mat_free m' h' = Inr (m', h')"
       "xor_free x' k' = Inr (x', k')"
    by auto
  then show ?thesis using x by (auto simp: shape_def)
qed

section \<open>Loops over the entries of a matrix\<close>

lemma span_shape: "shape m' = shape m \<Longrightarrow> span m' = span m"
  using shape_dims[of m' m] by (simp add: span_def)

lemma touched_refl [simp]: "touched m m"
  by (simp add: touched_def)

lemma touched_trans: "touched m m' \<Longrightarrow> touched m' m'' \<Longrightarrow> touched m m''"
  using span_shape[of m' m] by (auto simp: touched_def)

lemma touched_shape: "touched m m' \<Longrightarrow> shape m' = shape m"
  by (simp add: touched_def)

lemma mat_eqI:
  assumes "shape m' = shape m" "buf m' = buf m"
  shows "m' = m"
proof (cases "es m")
  case None
  then have "es m' = None" using assms(1) by (simp add: shape_def)
  then show ?thesis using None shape_dims[OF assms(1)] by simp
next
  case (Some p)
  then obtain p' where p': "es m' = Some p'" using assms(1) by (auto simp: shape_def)
  have "block p' = block p" "offset p' = offset p" "cells p' = cells p"
    using assms Some p' by (simp_all add: shape_def buf_def)
  then have "p' = p" by simp
  then show ?thesis using Some p' shape_dims[OF assms(1)] by simp
qed

lemma slot_loop:
  fixes dst :: "'a Mat"
  assumes ok: "mat_ok dst"
    and step: "\<And>i j m. i < rows dst \<Longrightarrow> j < cols dst \<Longrightarrow> shape m = shape dst \<Longrightarrow>
        f (i, j) m = Inr (poke m (i * stride dst + j) (val i j (buf m ! (i * stride dst + j))))"
  shows "\<exists>dst'. foldM f (mat_slots dst) dst = Inr dst' \<and> touched dst dst' \<and>
     (\<forall>i<rows dst. \<forall>j<cols dst. entry dst' i j = val i j (entry dst i j))"
proof -
  let ?adr = "\<lambda>(i, j). i * stride dst + j"
  let ?val = "\<lambda>(i, j). val i j"
  have "\<exists>m'. foldM f (mat_slots dst) dst = Inr m' \<and> shape m' = shape dst \<and>
           (\<forall>x\<in>set (mat_slots dst). buf m' ! ?adr x = ?val x (buf dst ! ?adr x)) \<and>
           (\<forall>k. k \<notin> ?adr ` set (mat_slots dst) \<longrightarrow> buf m' ! k = buf dst ! k)"
  proof (rule foldM_poke)
    fix x and m :: "'a Mat"
    assume x: "x \<in> set (mat_slots dst)" and m: "shape m = shape dst"
    obtain i j where ij: "x = (i, j)" by (cases x)
    have r: "i < rows dst" "j < cols dst" using x ij by simp_all
    show "f x m = Inr (poke m (?adr x) (?val x (buf m ! ?adr x)))"
      using step[OF r m] by (simp add: ij)
  next
    show "distinct (map ?adr (mat_slots dst))"
      using ok by (intro slot_addr_distinct) (simp add: mat_ok_def)
  next
    fix x assume x: "x \<in> set (mat_slots dst)"
    then show "?adr x < length (buf dst)"
      using mat_ok_addr[OF ok] by auto
  qed
  then obtain m' where m': "foldM f (mat_slots dst) dst = Inr m'" "shape m' = shape dst"
      "\<forall>x\<in>set (mat_slots dst). buf m' ! ?adr x = ?val x (buf dst ! ?adr x)"
      "\<forall>k. k \<notin> ?adr ` set (mat_slots dst) \<longrightarrow> buf m' ! k = buf dst ! k"
    by blast
  have 2: "\<forall>i<rows dst. \<forall>j<cols dst. entry m' i j = val i j (entry dst i j)"
  proof (intro allI impI)
    fix i j assume "i < rows dst" "j < cols dst"
    then have "(i, j) \<in> set (mat_slots dst)" by simp
    from m'(3)[rule_format, OF this] show "entry m' i j = val i j (entry dst i j)"
      using shape_dims[OF m'(2)] by (simp add: entry_def)
  qed
  have 3: "touched dst m'" using m'(2) m'(4) by (simp add: touched_def span_def)
  show ?thesis using m'(1) 2 3 by blast
qed

lemma mat_dot_touched:
  fixes dst a b :: "'a::{plus,times} Mat"
  assumes "mat_ok dst" "mat_ok a" "mat_ok b" "cols a = rows b" "rows dst = rows a" "cols dst = cols b"
  shows "\<exists>dst'. mat_dot dst a b = Inr dst' \<and> touched dst dst'"
  using mat_dot_result[OF assms] by (auto simp: touched_def span_def)

lemma mat_sum_result:
  fixes dst a :: "'a::plus Mat"
  assumes ok: "mat_ok dst" "mat_ok a" and sh: "rows dst = rows a" "cols dst = cols a"
  shows "\<exists>dst'. mat_sum dst a = Inr dst' \<and> touched dst dst' \<and>
     (\<forall>i<rows dst. \<forall>j<cols dst. entry dst' i j = entry dst i j + entry a i j)"
proof -
  have "\<exists>dst'. foldM (\<lambda>(i, j) dst.
         ebind (MAT_AT dst i j) (\<lambda>d.
         ebind (MAT_AT a i j) (\<lambda>x.
         MAT_SET dst i j (d + x)))) (mat_slots dst) dst = Inr dst' \<and> touched dst dst' \<and>
     (\<forall>i<rows dst. \<forall>j<cols dst. entry dst' i j = (\<lambda>i j d. d + entry a i j) i j (entry dst i j))"
  proof (rule slot_loop[OF ok(1)])
    fix i j and m :: "'a Mat"
    assume r: "i < rows dst" "j < cols dst" and m: "shape m = shape dst"
    have d: "i * stride m + j < length (buf m)"
      using mat_ok_addr[OF ok(1) r] shape_dims[OF m] by simp
    have a: "i * stride a + j < length (buf a)"
      using mat_ok_addr[OF ok(2)] r sh by simp
    show "(case (i, j) of (i, j) \<Rightarrow> \<lambda>dst.
         ebind (MAT_AT dst i j) (\<lambda>d.
         ebind (MAT_AT a i j) (\<lambda>x.
         MAT_SET dst i j (d + x)))) m
       = Inr (poke m (i * stride dst + j) (buf m ! (i * stride dst + j) + entry a i j))"
      using d a shape_dims[OF m] by (simp add: MAT_AT_Inr MAT_SET_Inr entry_def)
  qed
  then show ?thesis using sh by (simp add: mat_sum_def)
qed

lemma mat_sig_result:
  fixes m :: "'a::{one,plus,uminus,inverse} Mat"
  assumes ok: "mat_ok m"
  shows "\<exists>m'. mat_sig expf m = Inr m' \<and> touched m m' \<and>
     (\<forall>i<rows m. \<forall>j<cols m. entry m' i j = sigmoidf expf (entry m i j))"
  unfolding mat_sig_def
proof (rule slot_loop[OF ok, where val = "\<lambda>i j. sigmoidf expf"])
  fix i j and t :: "'a Mat"
  assume r: "i < rows m" "j < cols m" and t: "shape t = shape m"
  have d: "i * stride t + j < length (buf t)"
    using mat_ok_addr[OF ok r] shape_dims[OF t] by simp
  show "(case (i, j) of (i, j) \<Rightarrow> \<lambda>m.
         ebind (MAT_AT m i j) (\<lambda>x.
         MAT_SET m i j (sigmoidf expf x))) t
       = Inr (poke t (i * stride m + j) (sigmoidf expf (buf t ! (i * stride m + j))))"
    using d shape_dims[OF t] by (simp add: MAT_AT_Inr MAT_SET_Inr entry_def)
qed

lemma mat_fill_result:
  fixes m :: "'a Mat"
  assumes ok: "mat_ok m"
  shows "\<exists>m'. mat_fill m v = Inr m' \<and> touched m m' \<and>
     (\<forall>i<rows m. \<forall>j<cols m. entry m' i j = v)"
  unfolding mat_fill_def
proof (rule slot_loop[OF ok, where val = "\<lambda>i j d. v"])
  fix i j and t :: "'a Mat"
  assume r: "i < rows m" "j < cols m" and t: "shape t = shape m"
  have d: "i * stride t + j < length (buf t)"
    using mat_ok_addr[OF ok r] shape_dims[OF t] by simp
  show "(case (i, j) of (i, j) \<Rightarrow> \<lambda>m. MAT_SET m i j v) t = Inr (poke t (i * stride m + j) v)"
    using d shape_dims[OF t] by (simp add: MAT_SET_Inr)
qed

lemma mat_copy_result:
  fixes dst src :: "'a Mat"
  assumes ok: "mat_ok dst" and sh: "rows dst = rows src" "cols dst = cols src"
    and src: "\<And>i j. i < rows dst \<Longrightarrow> j < cols dst \<Longrightarrow> i * stride src + j < length (buf src)"
  shows "\<exists>dst'. mat_copy dst src = Inr dst' \<and> touched dst dst' \<and>
     (\<forall>i<rows dst. \<forall>j<cols dst. entry dst' i j = entry src i j)"
proof -
  have "\<exists>dst'. foldM (\<lambda>(i, j) dst.
         ebind (MAT_AT src i j) (\<lambda>x.
         MAT_SET dst i j x)) (mat_slots dst) dst = Inr dst' \<and> touched dst dst' \<and>
     (\<forall>i<rows dst. \<forall>j<cols dst. entry dst' i j = (\<lambda>i j d. entry src i j) i j (entry dst i j))"
  proof (rule slot_loop[OF ok(1)])
    fix i j and m :: "'a Mat"
    assume r: "i < rows dst" "j < cols dst" and m: "shape m = shape dst"
    have d: "i * stride m + j < length (buf m)"
      using mat_ok_addr[OF ok(1) r] shape_dims[OF m] by simp
    show "(case (i, j) of (i, j) \<Rightarrow> \<lambda>dst.
         ebind (MAT_AT src i j) (\<lambda>x.
         MAT_SET dst i j x)) m
       = Inr (poke m (i * stride dst + j) (entry src i j))"
      using d src[OF r] shape_dims[OF m] by (simp add: MAT_AT_Inr MAT_SET_Inr)
  qed
  then show ?thesis using sh by (simp add: mat_copy_def)
qed

lemma mat_fill_touched:
  fixes m m' :: "'a Mat"
  assumes ok: "mat_ok m" and t: "touched m m'"
  shows "mat_fill m' v = mat_fill m v"
proof -
  have sh: "shape m' = shape m" using t by (simp add: touched_def)
  have ok': "mat_ok m'" using ok mat_ok_shape[OF sh] by simp
  from mat_fill_result[OF ok, of v] obtain r where r: "mat_fill m v = Inr r" "touched m r"
    "\<forall>i<rows m. \<forall>j<cols m. entry r i j = v" by blast
  from mat_fill_result[OF ok', of v] obtain r' where r': "mat_fill m' v = Inr r'" "touched m' r'"
    "\<forall>i<rows m'. \<forall>j<cols m'. entry r' i j = v" by blast
  have s: "shape r' = shape r" using r(2) r'(2) sh by (simp add: touched_def)
  have "buf r' = buf r"
  proof (rule nth_equalityI)
    show "length (buf r') = length (buf r)" using shape_dims[OF s] by simp
  next
    fix k assume "k < length (buf r')"
    show "buf r' ! k = buf r ! k"
    proof (cases "k \<in> span m")
      case True
      then obtain i j where ij: "i < rows m" "j < cols m" "k = i * stride m + j"
        by (auto simp: span_def)
      have "entry r' i j = v" using r'(3) ij shape_dims[OF sh] by simp
      moreover have "entry r i j = v" using r(3) ij by simp
      moreover have "stride r = stride m" "stride r' = stride m"
        using shape_dims[OF touched_shape[OF r(2)]] shape_dims[OF touched_shape[OF r'(2)]]
          shape_dims[OF sh] by simp_all
      ultimately show ?thesis using ij(3) by (simp add: entry_def)
    next
      case False
      then have "buf r ! k = buf m ! k" using r(2) by (simp add: touched_def)
      moreover have "buf r' ! k = buf m' ! k"
        using r'(2) False span_shape[OF sh] by (simp add: touched_def)
      moreover have "buf m' ! k = buf m ! k" using t False by (simp add: touched_def)
      ultimately show ?thesis by simp
    qed
  qed
  then have "r' = r" using s by (rule mat_eqI[rotated])
  then show ?thesis using r(1) r'(1) by simp
qed

section \<open>The forward pass\<close>

lemma net_ok_shape:
  assumes "net_shape m' = net_shape m"
  shows "net_ok m' = net_ok m"
proof -
  have s: "shape (a0 m') = shape (a0 m)" "shape (a1 m') = shape (a1 m)"
    "shape (a2 m') = shape (a2 m)" "shape (w1 m') = shape (w1 m)" "shape (b1 m') = shape (b1 m)"
    "shape (w2 m') = shape (w2 m)" "shape (b2 m') = shape (b2 m)"
    using assms by (simp_all add: net_shape_def)
  show ?thesis
    unfolding net_ok_def
    using s[THEN mat_ok_shape] s[THEN shape_dims(1)] s[THEN shape_dims(2)]
    by simp
qed

lemma forward_frame:
  assumes "forward_xor expf m = Inr m'"
  shows "a0 m' = a0 m" "w1 m' = w1 m" "b1 m' = b1 m" "w2 m' = w2 m" "b2 m' = b2 m"
    "owns_matrices m' = owns_matrices m"
  using assms by (auto simp: forward_xor_def ebind_eq_Inr Let_def)

lemma forward_total:
  fixes m :: "'a::{one,plus,uminus,times,inverse} Xor"
  assumes ok: "net_ok m"
  shows "\<exists>x y. forward_xor expf m = Inr (m\<lparr>a1 := x, a2 := y\<rparr>) \<and>
           touched (a1 m) x \<and> touched (a2 m) y"
proof -
  note o = ok[unfolded net_ok_def]
  obtain x1 where x1: "mat_dot (a1 m) (a0 m) (w1 m) = Inr x1" "touched (a1 m) x1"
    using mat_dot_touched[of "a1 m" "a0 m" "w1 m"] o by auto
  have s1: "shape x1 = shape (a1 m)" using x1(2) by (rule touched_shape)
  obtain x2 where x2: "mat_sum x1 (b1 m) = Inr x2" "touched x1 x2"
    using mat_sum_result[of x1 "b1 m"] o mat_ok_shape[OF s1] shape_dims[OF s1] by auto
  have s2: "shape x2 = shape (a1 m)" using x2(2) s1 by (simp add: touched_def)
  obtain x3 where x3: "mat_sig expf x2 = Inr x3" "touched x2 x3"
    using mat_sig_result[of x2 expf] o mat_ok_shape[OF s2] by auto
  have s3: "shape x3 = shape (a1 m)" using x3(2) s2 by (simp add: touched_def)
  obtain y1 where y1: "mat_dot (a2 m) x3 (w2 m) = Inr y1" "touched (a2 m) y1"
    using mat_dot_touched[of "a2 m" x3 "w2 m"] o mat_ok_shape[OF s3] shape_dims[OF s3] by auto
  have t1: "shape y1 = shape (a2 m)" using y1(2) by (rule touched_shape)
  obtain y2 where y2: "mat_sum y1 (b2 m) = Inr y2" "touched y1 y2"
    using mat_sum_result[of y1 "b2 m"] o mat_ok_shape[OF t1] shape_dims[OF t1] by auto
  have t2: "shape y2 = shape (a2 m)" using y2(2) t1 by (simp add: touched_def)
  obtain y3 where y3: "mat_sig expf y2 = Inr y3" "touched y2 y3"
    using mat_sig_result[of y2 expf] o mat_ok_shape[OF t2] by auto
  have "forward_xor expf m = Inr (m\<lparr>a1 := x3, a2 := y3\<rparr>)"
    using x1(1) x2(1) x3(1) y1(1) y2(1) y3(1) by (simp add: forward_xor_def)
  moreover have "touched (a1 m) x3" using x1(2) x2(2) x3(2) by (blast intro: touched_trans)
  moreover have "touched (a2 m) y3" using y1(2) y2(2) y3(2) by (blast intro: touched_trans)
  ultimately show ?thesis by blast
qed

lemmas forward_eval = forward_xor_def mat_dot_def mat_sum_def mat_sig_def mat_slots_def
  MAT_AT_def MAT_SET_def sigmoidf_def Let_def upt_rec

text \<open>
  Claim C4, as stated: two forward passes in succession, same parameters and same
  \<^verbatim>\<open>a0\<close>, leave the same \<^verbatim>\<open>a2\<close>. On the all-zero network the first pass leaves
  \<open>1/2\<close> in \<^verbatim>\<open>a2\<close>; the second starts from that value and leaves
  \<open>1 / (1 + exp (- 1/2))\<close>.
\<close>

theorem forward_twice_differs:
  "forward_xor exp net0 = Inr net1 \<and> forward_xor exp net1 = Inr net2 \<and>
   a0 net1 = a0 net0 \<and> w1 net1 = w1 net0 \<and> b1 net1 = b1 net0 \<and>
   w2 net1 = w2 net0 \<and> b2 net1 = b2 net0 \<and>
   MAT_AT (a2 net1) 0 0 = Inr (1/2) \<and>
   MAT_AT (a2 net2) 0 0 = Inr (1 / (1 + exp (- (1/2)))) \<and>
   a2 net2 \<noteq> a2 net1"
  by (simp add: forward_eval net0_def net1_def net2_def)

text \<open>
  Claim C4, amended: with \<^verbatim>\<open>a1\<close> and \<^verbatim>\<open>a2\<close> zeroed before each call, the same
  parameters and the same \<^verbatim>\<open>a0\<close>, the second forward pass leaves in \<^verbatim>\<open>a2\<close> what
  the first one left. Zeroing after the first pass gives back the very state the first
  pass started from.
\<close>

theorem forward_idempotent_when_zeroed:
  fixes m :: "'a::{zero,one,plus,uminus,times,inverse} Xor"
  assumes ok: "net_ok m"
  shows "\<exists>m0 m1. reset_activations m = Inr m0 \<and> forward_xor expf m0 = Inr m1 \<and>
           reset_activations m1 = Inr m0 \<and>
           (\<exists>m2. ebind (reset_activations m1) (forward_xor expf) = Inr m2 \<and> a2 m2 = a2 m1)"
proof -
  note o = ok[unfolded net_ok_def]
  obtain z1 where z1: "mat_fill (a1 m) 0 = Inr z1" "touched (a1 m) z1"
    using mat_fill_result[of "a1 m" 0] o by auto
  obtain z2 where z2: "mat_fill (a2 m) 0 = Inr z2" "touched (a2 m) z2"
    using mat_fill_result[of "a2 m" 0] o by auto
  let ?m0 = "m\<lparr>a1 := z1, a2 := z2\<rparr>"
  have r0: "reset_activations m = Inr ?m0"
    using z1(1) z2(1) by (simp add: reset_activations_def)
  have "net_shape ?m0 = net_shape m"
    using touched_shape[OF z1(2)] touched_shape[OF z2(2)] by (simp add: net_shape_def)
  then have ok0: "net_ok ?m0" using ok net_ok_shape by blast
  from forward_total[OF ok0, of expf] obtain x y where
    f: "forward_xor expf ?m0 = Inr (?m0\<lparr>a1 := x, a2 := y\<rparr>)" "touched z1 x" "touched z2 y"
    by auto
  let ?m1 = "?m0\<lparr>a1 := x, a2 := y\<rparr>"
  have "mat_fill x 0 = mat_fill (a1 m) 0"
    using mat_fill_touched[of "a1 m" x 0] o touched_trans[OF z1(2) f(2)] by simp
  moreover have "mat_fill y 0 = mat_fill (a2 m) 0"
    using mat_fill_touched[of "a2 m" y 0] o touched_trans[OF z2(2) f(3)] by simp
  ultimately have r1: "reset_activations ?m1 = Inr ?m0"
    using z1(1) z2(1) by (simp add: reset_activations_def)
  show ?thesis
    using r0 f(1) r1 by (intro exI[of _ ?m0] exI[of _ ?m1]) simp
qed

theorem forward_idempotent_when_zeroed_witness:
  "net_ok net0 \<and>
   (\<exists>m0 m1. reset_activations net0 = Inr m0 \<and> forward_xor exp m0 = Inr m1 \<and>
      reset_activations m1 = Inr m0 \<and>
      (\<exists>m2. ebind (reset_activations m1) (forward_xor exp) = Inr m2 \<and> a2 m2 = a2 m1))"
proof -
  have ok: "net_ok net0" by (simp add: net_ok_def mat_ok_def buf_def net0_def)
  show ?thesis using ok forward_idempotent_when_zeroed[OF ok, of exp] by simp
qed

section \<open>The cost\<close>

lemma same_params_refl [simp]: "same_params m m"
  by (simp add: same_params_def)

lemma same_params_trans: "same_params m m' \<Longrightarrow> same_params m' m'' \<Longrightarrow> same_params m m''"
  by (simp add: same_params_def)

lemma net_shape_dims:
  assumes "net_shape m' = net_shape m"
  shows "shape (a0 m') = shape (a0 m)" "shape (a1 m') = shape (a1 m)"
    "shape (a2 m') = shape (a2 m)" "shape (w1 m') = shape (w1 m)" "shape (b1 m') = shape (b1 m)"
    "shape (w2 m') = shape (w2 m)" "shape (b2 m') = shape (b2 m)"
  using assms by (simp_all add: net_shape_def)

lemma cost_ready_shape:
  assumes "net_shape m' = net_shape m"
  shows "cost_ready m' ti to = cost_ready m ti to"
  using net_ok_shape[OF assms] net_shape_dims[OF assms, THEN shape_dims(1)]
    net_shape_dims[OF assms, THEN shape_dims(2)]
  by (simp add: cost_ready_def)

lemma mat_row_simps [simp]:
  "rows (mat_row m i) = 1" "cols (mat_row m i) = cols m" "stride (mat_row m i) = stride m"
  "buf (mat_row m i) = drop (i * stride m) (buf m)"
  by (cases "es m"; simp add: mat_row_def buf_def)+

lemma mat_row_addr:
  assumes "mat_ok m" "i < rows m" "j < cols m"
  shows "0 * stride (mat_row m i) + j < length (buf (mat_row m i))"
  using mat_ok_addr[OF assms] by simp

lemma cost_row_frame:
  assumes "cost_row expf ti to i (m, c) = Inr (m', c')"
  shows "same_params m m' \<and> owns_matrices m' = owns_matrices m"
proof -
  from assms obtain x0 where
    f: "forward_xor expf (m\<lparr>a0 := x0\<rparr>) = Inr m'"
    by (auto simp: cost_row_def Let_def ebind_eq_Inr)
  from forward_frame[OF f] show ?thesis by (simp add: same_params_def)
qed

lemma cost_row_total:
  fixes m :: "'a::{one,plus,minus,uminus,times,inverse} Xor"
  assumes rdy: "cost_ready m ti to" and i: "i < rows ti"
  shows "\<exists>m' c'. cost_row expf ti to i (m, c) = Inr (m', c') \<and> net_shape m' = net_shape m"
proof -
  note r = rdy[unfolded cost_ready_def]
  note o = r[THEN conjunct1, unfolded net_ok_def]
  have "\<exists>x0. mat_copy (a0 m) (mat_row ti i) = Inr x0 \<and> touched (a0 m) x0 \<and>
     (\<forall>k<rows (a0 m). \<forall>j<cols (a0 m). entry x0 k j = entry (mat_row ti i) k j)"
  proof (rule mat_copy_result)
    show "mat_ok (a0 m)" using o by simp
    show "rows (a0 m) = rows (mat_row ti i)" using r by simp
    show "cols (a0 m) = cols (mat_row ti i)" using r by simp
    fix k j assume "k < rows (a0 m)" "j < cols (a0 m)"
    then have "k = 0" "j < cols ti" using r by simp_all
    then show "k * stride (mat_row ti i) + j < length (buf (mat_row ti i))"
      using mat_row_addr[of ti i j] r i by simp
  qed
  then obtain x0 where x0: "mat_copy (a0 m) (mat_row ti i) = Inr x0" "touched (a0 m) x0"
    by blast
  let ?m1 = "m\<lparr>a0 := x0\<rparr>"
  have s1: "net_shape ?m1 = net_shape m"
    using touched_shape[OF x0(2)] by (simp add: net_shape_def)
  then have ok1: "net_ok ?m1" using r net_ok_shape by blast
  from forward_total[OF ok1, of expf] obtain x y where
    f: "forward_xor expf ?m1 = Inr (?m1\<lparr>a1 := x, a2 := y\<rparr>)" "touched (a1 m) x" "touched (a2 m) y"
    by auto
  let ?m2 = "?m1\<lparr>a1 := x, a2 := y\<rparr>"
  have s2: "net_shape ?m2 = net_shape m"
    using touched_shape[OF x0(2)] touched_shape[OF f(2)] touched_shape[OF f(3)]
    by (simp add: net_shape_def)
  have oky: "mat_ok y" "rows y = 1" "cols y = cols to"
    using mat_ok_shape[OF touched_shape[OF f(3)]] shape_dims[OF touched_shape[OF f(3)]] o r
    by simp_all
  have "\<exists>c'. foldM (\<lambda>j c.
         ebind (MAT_AT y 0 j) (\<lambda>out.
         ebind (MAT_AT (mat_row to i) 0 j) (\<lambda>e.
         let d = out - e in Inr (c + d * d)))) [0..<cols to] c = Inr c' \<and> True"
  proof (rule foldM_total)
    fix j and t :: 'a assume "j \<in> set [0..<cols to]"
    then have j: "j < cols to" by simp
    have 1: "0 * stride y + j < length (buf y)"
      using mat_ok_addr[OF oky(1), of 0 j] oky j by simp
    have 2: "0 * stride (mat_row to i) + j < length (buf (mat_row to i))"
      using mat_row_addr[of to i j] r i j by simp
    show "\<exists>t'. ebind (MAT_AT y 0 j) (\<lambda>out.
         ebind (MAT_AT (mat_row to i) 0 j) (\<lambda>e.
         let d = out - e in Inr (t + d * d))) = Inr t' \<and> True"
      using MAT_AT_Inr[OF 1] MAT_AT_Inr[OF 2] by (simp add: Let_def)
  qed simp
  then obtain c' where c': "foldM (\<lambda>j c.
         ebind (MAT_AT y 0 j) (\<lambda>out.
         ebind (MAT_AT (mat_row to i) 0 j) (\<lambda>e.
         let d = out - e in Inr (c + d * d)))) [0..<cols to] c = Inr c'"
    by blast
  have "cost_row expf ti to i (m, c) = Inr (?m2, c')"
    using x0(1) f(1) c' by (simp add: cost_row_def Let_def)
  then show ?thesis using s2 by blast
qed

lemma cost_frame:
  assumes "cost expf of_size m ti to = Inr (m', c)"
  shows "same_params m m' \<and> owns_matrices m' = owns_matrices m"
proof -
  from assms obtain c0 where
    f: "foldM (cost_row expf ti to) [0..<rows ti] (m, 0) = Inr (m', c0)"
    by (auto simp: cost_def Let_def ebind_eq_Inr NN_ASSERT_def split: if_splits)
  have "(\<lambda>(t, c). same_params m t \<and> owns_matrices t = owns_matrices m) (m', c0)"
  proof (rule foldM_inv[OF f])
    show "(\<lambda>(t, c). same_params m t \<and> owns_matrices t = owns_matrices m) (m, 0)" by simp
  next
    fix x and t t' :: "'a Xor \<times> 'a"
    assume "(\<lambda>(t, c). same_params m t \<and> owns_matrices t = owns_matrices m) t"
      "cost_row expf ti to x t = Inr t'"
    then show "(\<lambda>(t, c). same_params m t \<and> owns_matrices t = owns_matrices m) t'"
      using cost_row_frame[of expf ti to x "fst t" "snd t" "fst t'" "snd t'"]
      by (auto simp: same_params_def split: prod.splits)
  qed
  then show ?thesis by simp
qed

lemma cost_total:
  fixes m :: "'a::{zero,one,plus,minus,uminus,times,inverse} Xor"
  assumes rdy: "cost_ready m ti to"
  shows "\<exists>m' c. cost expf of_size m ti to = Inr (m', c) \<and> net_shape m' = net_shape m"
proof -
  have "\<exists>s'. foldM (cost_row expf ti to) [0..<rows ti] (m, 0) = Inr s' \<and>
           (\<lambda>(t, c). net_shape t = net_shape m) s'"
  proof (rule foldM_total)
    show "(\<lambda>(t, c). net_shape t = net_shape m) (m, 0)" by simp
  next
    fix i and s :: "'a Xor \<times> 'a"
    assume i: "i \<in> set [0..<rows ti]" and s: "(\<lambda>(t, c). net_shape t = net_shape m) s"
    obtain t c where tc: "s = (t, c)" by (cases s)
    have sh: "net_shape t = net_shape m" using s tc by simp
    have "cost_ready t ti to" using rdy cost_ready_shape[OF sh] by simp
    from cost_row_total[OF this, of i expf c] i obtain t' c' where
      "cost_row expf ti to i (t, c) = Inr (t', c')" "net_shape t' = net_shape t" by auto
    then show "\<exists>s'. cost_row expf ti to i s = Inr s' \<and> (\<lambda>(t, c). net_shape t = net_shape m) s'"
      using tc sh by simp
  qed
  then obtain m' c where "foldM (cost_row expf ti to) [0..<rows ti] (m, 0) = Inr (m', c)"
    "net_shape m' = net_shape m" by auto
  then show ?thesis using rdy by (simp add: cost_def cost_ready_def)
qed

section \<open>The gradient estimate and the update\<close>

lemma get_set_param [simp]:
  "get_param p (set_param p x m) = x"
  "p \<noteq> q \<Longrightarrow> get_param q (set_param p x m) = get_param q m"
  "a0 (set_param p x m) = a0 m" "a1 (set_param p x m) = a1 m" "a2 (set_param p x m) = a2 m"
  "owns_matrices (set_param p x m) = owns_matrices m"
  by (cases p; cases q; simp)+

lemma set_get_param [simp]: "set_param p (get_param p m) m = m"
  by (cases p) simp_all

lemma same_params_get: "same_params m m' \<longleftrightarrow> (\<forall>q. get_param q m' = get_param q m)"
proof
  assume "same_params m m'"
  then show "\<forall>q. get_param q m' = get_param q m"
    by (auto simp: same_params_def intro: param.induct)
next
  assume a: "\<forall>q. get_param q m' = get_param q m"
  show "same_params m m'"
    using a[rule_format, of W1] a[rule_format, of B1] a[rule_format, of W2] a[rule_format, of B2]
    by (simp add: same_params_def)
qed

lemma shape_get_param: "net_shape m' = net_shape m \<Longrightarrow> shape (get_param p m') = shape (get_param p m)"
  by (cases p) (simp_all add: net_shape_def)

lemma net_shape_set_param:
  "shape x = shape (get_param p m) \<Longrightarrow> net_shape (set_param p x m) = net_shape m"
  by (cases p) (simp_all add: net_shape_def)

lemma slot_in_shape: "net_shape m' = net_shape m \<Longrightarrow> slot_in p m' = slot_in p m"
  using shape_dims[OF shape_get_param[of m' m p]] by (simp add: slot_in_def)

lemma param_slots_shape: "shape m' = shape m \<Longrightarrow> param_slots m' = param_slots m"
  using shape_dims[of m' m] by (simp add: param_slots_def)

lemma shape_null: "shape m' = shape m \<Longrightarrow> (es m' = None) = (es m = None)"
  by (auto simp: shape_def)

lemma fresh_mat_shape: "shape m' = shape m \<Longrightarrow> fresh_mat r c m' = fresh_mat r c m"
  using shape_dims[of m' m] shape_null[of m' m] by (simp add: fresh_mat_def)

lemma fresh_mat_ok: "fresh_mat r c m \<Longrightarrow> mat_ok m"
  by (cases r) (auto simp: fresh_mat_def mat_ok_def)

lemma alloc_net_ok: "alloc_net m \<Longrightarrow> net_ok m \<and> rows (a0 m) = 1"
  unfolding alloc_net_def net_ok_def
  by (auto dest: fresh_mat_ok) (simp_all add: fresh_mat_def)

lemma diff_slot_frame:
  assumes "diff_slot expf of_size ti to eps c p s (m, g) = Inr (m', g')"
  shows "same_params m m'"
proof -
  obtain i j where s: "s = (i, j)" by (cases s)
  let ?k = "i * stride (get_param p m) + j"
  let ?m1 = "set_param p (poke (get_param p m) ?k (entry (get_param p m) i j + eps)) m"
  from assms[unfolded s diff_slot_def] obtain m2 c1 where
    k: "?k < length (buf (get_param p m))"
    and c: "cost expf of_size ?m1 ti to = Inr (m2, c1)"
    and r: "MAT_SET (get_param p m2) i j (entry (get_param p m) i j) = Inr (get_param p m')"
    and m': "m' = set_param p (get_param p m') m2"
    by (auto simp: ebind_eq_Inr MAT_AT_eq_Inr MAT_SET_eq_Inr Let_def)
  have sp: "\<forall>q. get_param q m2 = get_param q ?m1"
    using cost_frame[OF c] by (simp add: same_params_get)
  then have p2: "get_param p m2 = poke (get_param p m) ?k (entry (get_param p m) i j + eps)"
    by simp
  have "get_param p m' = get_param p m"
    using r k unfolding p2 by (simp add: MAT_SET_eq_Inr entry_def)
  moreover have "get_param q m' = get_param q m" if "q \<noteq> p" for q
  proof -
    have "get_param q m' = get_param q m2" using m' that by (metis get_set_param(2))
    then show ?thesis using sp that by simp
  qed
  ultimately show ?thesis unfolding same_params_get by metis
qed

lemma diff_param_frame:
  assumes "diff_param expf of_size ti to eps c p (m, g) = Inr (m', g')"
  shows "same_params m m'"
proof -
  have f: "foldM (diff_slot expf of_size ti to eps c p) (param_slots (get_param p m)) (m, g)
      = Inr (m', g')"
    using assms by (simp add: diff_param_def)
  have "(\<lambda>(t, u). same_params m t) (m', g')"
  proof (rule foldM_inv[OF f])
    show "(\<lambda>(t, u). same_params m t) (m, g)" by simp
  next
    fix s and t t' :: "'a Xor \<times> 'a Xor"
    assume "(\<lambda>(t, u). same_params m t) t" "diff_slot expf of_size ti to eps c p s t = Inr t'"
    then show "(\<lambda>(t, u). same_params m t) t'"
      using diff_slot_frame[of expf of_size ti to eps c p s "fst t" "snd t" "fst t'" "snd t'"]
      by (auto intro: same_params_trans split: prod.splits)
  qed
  then show ?thesis by simp
qed


lemma diff_slot_total:
  fixes m g :: "'a::{zero,one,plus,minus,uminus,times,inverse} Xor"
  assumes rdy: "cost_ready m ti to" and sm: "slot_in p m s" and sg: "slot_in p g s"
  shows "\<exists>m' g'. diff_slot expf of_size ti to eps c p s (m, g) = Inr (m', g') \<and>
           net_shape m' = net_shape m \<and> net_shape g' = net_shape g"
proof -
  obtain i j where s: "s = (i, j)" by (cases s)
  let ?k = "i * stride (get_param p m) + j"
  let ?kg = "i * stride (get_param p g) + j"
  let ?saved = "entry (get_param p m) i j"
  have k: "?k < length (buf (get_param p m))" using sm s by (simp add: slot_in_def)
  have kg: "?kg < length (buf (get_param p g))" using sg s by (simp add: slot_in_def)
  let ?m1 = "set_param p (poke (get_param p m) ?k (?saved + eps)) m"
  have s1: "net_shape ?m1 = net_shape m" by (simp add: net_shape_set_param)
  then have "cost_ready ?m1 ti to" using rdy cost_ready_shape by blast
  from cost_total[OF this, of expf of_size] obtain m2 c1 where
    c: "cost expf of_size ?m1 ti to = Inr (m2, c1)" "net_shape m2 = net_shape ?m1" by blast
  have s2: "net_shape m2 = net_shape m" using c(2) s1 by simp
  have sh2: "shape (get_param p m2) = shape (get_param p m)" using s2 by (rule shape_get_param)
  have k2: "i * stride (get_param p m2) + j < length (buf (get_param p m2))"
    using k shape_dims[OF sh2] by simp
  let ?g1 = "set_param p (poke (get_param p g) ?kg ((c1 - c) / eps)) g"
  let ?m3 = "set_param p (poke (get_param p m2) (i * stride (get_param p m2) + j) ?saved) m2"
  have "diff_slot expf of_size ti to eps c p s (m, g) = Inr (?m3, ?g1)"
    using k kg k2 c(1)
    by (simp add: diff_slot_def s MAT_AT_Inr MAT_SET_Inr Let_def)
  moreover have "net_shape ?m3 = net_shape m" using s2 by (simp add: net_shape_set_param)
  moreover have "net_shape ?g1 = net_shape g" by (simp add: net_shape_set_param)
  ultimately show ?thesis by blast
qed

lemma diff_slots_total:
  fixes m g :: "'a::{zero,one,plus,minus,uminus,times,inverse} Xor"
  assumes rdy: "cost_ready m ti to"
    and sl: "\<forall>s\<in>set xs. slot_in p m s \<and> slot_in p g s"
  shows "\<exists>m' g'. foldM (diff_slot expf of_size ti to eps c p) xs (m, g) = Inr (m', g') \<and>
           net_shape m' = net_shape m \<and> net_shape g' = net_shape g"
proof -
  let ?P = "\<lambda>(t, u). net_shape t = net_shape m \<and> net_shape u = net_shape g"
  have "\<exists>s'. foldM (diff_slot expf of_size ti to eps c p) xs (m, g) = Inr s' \<and> ?P s'"
  proof (rule foldM_total)
    show "?P (m, g)" by simp
  next
    fix s and tu :: "'a Xor \<times> 'a Xor"
    assume s: "s \<in> set xs" and P: "?P tu"
    obtain t u where tu: "tu = (t, u)" by (cases tu)
    have sh: "net_shape t = net_shape m" "net_shape u = net_shape g" using P tu by simp_all
    have 1: "cost_ready t ti to" using rdy cost_ready_shape[OF sh(1)] by simp
    have 2: "slot_in p t s" "slot_in p u s"
      using sl s slot_in_shape[OF sh(1)] slot_in_shape[OF sh(2)] by simp_all
    from diff_slot_total[OF 1 2, of expf of_size eps c] obtain t' u' where
      "diff_slot expf of_size ti to eps c p s (t, u) = Inr (t', u')"
      "net_shape t' = net_shape t" "net_shape u' = net_shape u" by blast
    then show "\<exists>s'. diff_slot expf of_size ti to eps c p s tu = Inr s' \<and> ?P s'"
      using tu sh by simp
  qed
  then show ?thesis by auto
qed

lemma diff_param_total:
  fixes m g :: "'a::{zero,one,plus,minus,uminus,times,inverse} Xor"
  assumes rdy: "cost_ready m ti to"
    and sl: "\<forall>s\<in>set (param_slots (get_param p m)). slot_in p m s \<and> slot_in p g s"
  shows "\<exists>m' g'. diff_param expf of_size ti to eps c p (m, g) = Inr (m', g') \<and>
           net_shape m' = net_shape m \<and> net_shape g' = net_shape g"
  using diff_slots_total[OF rdy sl] by (simp add: diff_param_def)

lemma slots_ok_shape:
  assumes "net_shape m' = net_shape m" "net_shape g' = net_shape g"
  shows "slots_ok m' g' = slots_ok m g"
  unfolding slots_ok_def
  using slot_in_shape[OF assms(1)] slot_in_shape[OF assms(2)]
    param_slots_shape[OF shape_get_param[OF assms(1)]]
  by simp

lemma finite_diff_total:
  fixes m g :: "'a::{zero,one,plus,minus,uminus,times,inverse} Xor"
  assumes rdy: "cost_ready m ti to" and sl: "slots_ok m g"
  shows "\<exists>m' g'. finite_diff expf of_size m g ti to eps = Inr (m', g') \<and>
           net_shape m' = net_shape m \<and> net_shape g' = net_shape g"
proof -
  from cost_total[OF rdy, of expf of_size] obtain m0 c where
    c: "cost expf of_size m ti to = Inr (m0, c)" "net_shape m0 = net_shape m" by blast
  let ?P = "\<lambda>(t, u). net_shape t = net_shape m \<and> net_shape u = net_shape g"
  have "\<exists>s'. foldM (diff_param expf of_size ti to eps c) [W1, B1, W2, B2] (m0, g) = Inr s' \<and> ?P s'"
  proof (rule foldM_total)
    show "?P (m0, g)" using c(2) by simp
  next
    fix p and tu :: "'a Xor \<times> 'a Xor"
    assume p: "p \<in> set [W1, B1, W2, B2]" and P: "?P tu"
    obtain t u where tu: "tu = (t, u)" by (cases tu)
    have sh: "net_shape t = net_shape m" "net_shape u = net_shape g" using P tu by simp_all
    have 1: "cost_ready t ti to" using rdy cost_ready_shape[OF sh(1)] by simp
    have "slots_ok t u" using sl slots_ok_shape[OF sh] by simp
    then have 2: "\<forall>s\<in>set (param_slots (get_param p t)). slot_in p t s \<and> slot_in p u s"
      using p unfolding slots_ok_def by blast
    from diff_param_total[OF 1 2, of expf of_size eps c] obtain t' u' where
      "diff_param expf of_size ti to eps c p (t, u) = Inr (t', u')"
      "net_shape t' = net_shape t" "net_shape u' = net_shape u" by blast
    then show "\<exists>s'. diff_param expf of_size ti to eps c p tu = Inr s' \<and> ?P s'"
      using tu sh by simp
  qed
  then show ?thesis using c(1) by (auto simp: finite_diff_def)
qed

lemma param_slots_b1: "rows m = 1 \<Longrightarrow> cols m = 2 \<Longrightarrow> param_slots m = [(0, 0), (1, 0)]"
  by (simp add: param_slots_def upt_rec)

lemma param_slots_w1:
  "rows m = 2 \<Longrightarrow> cols m = 2 \<Longrightarrow> param_slots m = [(0, 0), (0, 1), (1, 0), (1, 1)]"
  by (simp add: param_slots_def upt_rec)

lemma diff_param_b1_faults:
  fixes m g :: "'a::{zero,one,plus,minus,uminus,times,inverse} Xor"
  assumes rdy: "cost_ready m ti to" and bm: "fresh_mat 1 2 (b1 m)" and bg: "fresh_mat 1 2 (b1 g)"
  shows "diff_param expf of_size ti to eps c B1 (m, g) = Inl OutOfBounds"
proof -
  have ps: "param_slots (b1 m) = [(0, 0), (1, 0)]"
    using bm by (simp add: param_slots_b1 fresh_mat_def)
  have "slot_in B1 m (0, 0)" "slot_in B1 g (0, 0)"
    using bm bg by (simp_all add: slot_in_def fresh_mat_def)
  from diff_slot_total[OF rdy this, of expf of_size eps c] obtain m' g' where
    1: "diff_slot expf of_size ti to eps c B1 (0, 0) (m, g) = Inr (m', g')"
    "net_shape m' = net_shape m" by blast
  have "fresh_mat 1 2 (b1 m')"
    using bm fresh_mat_shape[OF shape_get_param[OF 1(2), of B1]] by simp
  then have "MAT_AT (b1 m') 1 0 = Inl OutOfBounds"
    by (intro MAT_AT_fault) (simp_all add: fresh_mat_def)
  then have 2: "diff_slot expf of_size ti to eps c B1 (1, 0) (m', g') = Inl OutOfBounds"
    by (simp add: diff_slot_def)
  show ?thesis using 1(1) 2 by (simp add: diff_param_def ps)
qed

lemma finite_diff_faults:
  fixes m g :: "'a::{zero,one,plus,minus,uminus,times,inverse} Xor"
  assumes m: "alloc_net m" and g: "alloc_net g"
    and t: "mat_ok ti" "mat_ok to" "rows ti = rows to" "cols to = 1" "cols ti = 2"
  shows "finite_diff expf of_size m g ti to eps = Inl OutOfBounds"
proof -
  have rdy: "cost_ready m ti to"
    using alloc_net_ok[OF m] t m by (simp add: cost_ready_def alloc_net_def fresh_mat_def)
  from cost_total[OF rdy, of expf of_size] obtain m0 c where
    c: "cost expf of_size m ti to = Inr (m0, c)" "net_shape m0 = net_shape m" by blast
  have rdy0: "cost_ready m0 ti to" using rdy cost_ready_shape[OF c(2)] by simp
  have w: "fresh_mat 2 2 (w1 m0)" "fresh_mat 2 2 (w1 g)"
    using m g fresh_mat_shape[OF shape_get_param[OF c(2), of W1]] by (simp_all add: alloc_net_def)
  have "\<forall>s\<in>set (param_slots (get_param W1 m0)). slot_in W1 m0 s \<and> slot_in W1 g s"
    using w by (auto simp: fresh_mat_def slot_in_def param_slots_w1)
  from diff_param_total[OF rdy0 this, of expf of_size eps c] obtain m1 g1 where
    1: "diff_param expf of_size ti to eps c W1 (m0, g) = Inr (m1, g1)"
    "net_shape m1 = net_shape m0" "net_shape g1 = net_shape g" by blast
  have rdy1: "cost_ready m1 ti to" using rdy0 cost_ready_shape[OF 1(2)] by simp
  have b: "fresh_mat 1 2 (b1 m1)" "fresh_mat 1 2 (b1 g1)"
    using m g fresh_mat_shape[OF shape_get_param[OF 1(2), of B1]]
      fresh_mat_shape[OF shape_get_param[OF c(2), of B1]]
      fresh_mat_shape[OF shape_get_param[OF 1(3), of B1]]
    by (simp_all add: alloc_net_def)
  have 2: "diff_param expf of_size ti to eps c B1 (m1, g1) = Inl OutOfBounds"
    by (rule diff_param_b1_faults[OF rdy1 b])
  show ?thesis using c(1) 1(1) 2 by (simp add: finite_diff_def)
qed

lemma learn_slot_total:
  fixes m g :: "'a::{minus,times} Xor"
  assumes sm: "slot_in p m s" and sg: "slot_in p g s"
  shows "\<exists>m'. learn_slot g rate p s m = Inr m' \<and> net_shape m' = net_shape m"
proof -
  obtain i j where s: "s = (i, j)" by (cases s)
  have k: "i * stride (get_param p m) + j < length (buf (get_param p m))"
    using sm s by (simp add: slot_in_def)
  have kg: "i * stride (get_param p g) + j < length (buf (get_param p g))"
    using sg s by (simp add: slot_in_def)
  show ?thesis
    using k kg by (simp add: learn_slot_def s MAT_AT_Inr MAT_SET_Inr net_shape_set_param)
qed

lemma learn_param_total:
  fixes m g :: "'a::{minus,times} Xor"
  assumes sl: "\<forall>s\<in>set (param_slots (get_param p m)). slot_in p m s \<and> slot_in p g s"
  shows "\<exists>m'. learn_param g rate p m = Inr m' \<and> net_shape m' = net_shape m"
  unfolding learn_param_def
proof (rule foldM_total)
  show "net_shape m = net_shape m" by simp
next
  fix s and t :: "'a Xor"
  assume s: "s \<in> set (param_slots (get_param p m))" and sh: "net_shape t = net_shape m"
  have "slot_in p t s" "slot_in p g s"
    using sl s slot_in_shape[OF sh] by (simp_all del: set_param_slots)
  from learn_slot_total[OF this, of rate] sh
  show "\<exists>t'. learn_slot g rate p s t = Inr t' \<and> net_shape t' = net_shape m" by auto
qed

lemma learn_param_b1_faults:
  fixes m g :: "'a::{minus,times} Xor"
  assumes bm: "fresh_mat 1 2 (b1 m)" and bg: "fresh_mat 1 2 (b1 g)"
  shows "learn_param g rate B1 m = Inl OutOfBounds"
proof -
  have ps: "param_slots (b1 m) = [(0, 0), (1, 0)]"
    using bm by (simp add: param_slots_b1 fresh_mat_def)
  have "slot_in B1 m (0, 0)" "slot_in B1 g (0, 0)"
    using bm bg by (simp_all add: slot_in_def fresh_mat_def)
  from learn_slot_total[OF this, of rate] obtain m' where
    1: "learn_slot g rate B1 (0, 0) m = Inr m'" "net_shape m' = net_shape m" by blast
  have "fresh_mat 1 2 (b1 m')"
    using bm fresh_mat_shape[OF shape_get_param[OF 1(2), of B1]] by simp
  then have "MAT_AT (b1 m') 1 0 = Inl OutOfBounds"
    by (intro MAT_AT_fault) (simp_all add: fresh_mat_def)
  then have 2: "learn_slot g rate B1 (1, 0) m' = Inl OutOfBounds"
    by (simp add: learn_slot_def)
  show ?thesis using 1(1) 2 by (simp add: learn_param_def ps)
qed

lemma xor_learn_faults:
  fixes m g :: "'a::{minus,times} Xor"
  assumes m: "alloc_net m" and g: "alloc_net g"
  shows "xor_learn m g rate = Inl OutOfBounds"
proof -
  have w: "fresh_mat 2 2 (w1 m)" "fresh_mat 2 2 (w1 g)"
    using m g by (simp_all add: alloc_net_def)
  have "\<forall>s\<in>set (param_slots (get_param W1 m)). slot_in W1 m s \<and> slot_in W1 g s"
    using w by (auto simp: fresh_mat_def slot_in_def param_slots_w1)
  from learn_param_total[OF this, of rate] obtain m1 where
    1: "learn_param g rate W1 m = Inr m1" "net_shape m1 = net_shape m" by blast
  have b: "fresh_mat 1 2 (b1 m1)" "fresh_mat 1 2 (b1 g)"
    using m g fresh_mat_shape[OF shape_get_param[OF 1(2), of B1]] by (simp_all add: alloc_net_def)
  have 2: "learn_param g rate B1 m1 = Inl OutOfBounds"
    by (rule learn_param_b1_faults[OF b])
  show ?thesis using 1(1) 2 by (simp add: xor_learn_def)
qed

lemma mat_alloc_fresh: "mat_alloc junk r c h = Inr (m, h') \<Longrightarrow> fresh_mat r c m"
  by (auto simp: mat_alloc_def malloc_def fresh_mat_def buf_def NN_ASSERT_def
      split: if_splits prod.splits)

lemma xor_alloc_alloc_net:
  assumes "xor_alloc junk h = Inr (m, h')"
  shows "alloc_net m"
proof -
  from assms obtain m_a0 h1 m_w1 h2 m_b1 h3 m_a1 h4 m_w2 h5 m_b2 h6 m_a2 where
    a: "mat_alloc junk 1 2 h = Inr (m_a0, h1)" "mat_alloc junk 2 2 h1 = Inr (m_w1, h2)"
       "mat_alloc junk 1 2 h2 = Inr (m_b1, h3)" "mat_alloc junk 1 2 h3 = Inr (m_a1, h4)"
       "mat_alloc junk 2 1 h4 = Inr (m_w2, h5)" "mat_alloc junk 1 1 h5 = Inr (m_b2, h6)"
       "mat_alloc junk 1 1 h6 = Inr (m_a2, h')"
    and m: "m = \<lparr>a0 = m_a0, a1 = m_a1, a2 = m_a2, w1 = m_w1, b1 = m_b1, w2 = m_w2, b2 = m_b2,
           owns_matrices = 1\<rparr>"
    by (auto simp: xor_alloc_def ebind_eq_Inr)
  show ?thesis
    using a[THEN mat_alloc_fresh] by (simp add: alloc_net_def m)
qed

lemma xor_alloc_heap1: "\<exists>h. xor_alloc (\<lambda>_. 0) heap1 = Inr (grad0, h)"
  by (simp add: xor_alloc_def mat_alloc_def malloc_def heap1_def grad0_def upt_rec)

lemma alloc_net0: "alloc_net net0" "alloc_net grad0"
  by (simp_all add: alloc_net_def fresh_mat_def buf_def net0_def grad0_def)

lemma xor_table_ok:
  "mat_ok xor_ti" "mat_ok xor_to" "rows xor_ti = rows xor_to" "cols xor_to = 1" "cols xor_ti = 2"
  by (simp_all add: mat_ok_def buf_def xor_ti_def xor_to_def td_def)


text \<open>
  What one loop iteration writes when it succeeds: the gradient slot receives
  \<open>(c1 - c) / eps\<close>, with \<open>c1\<close> the cost of the model with that one slot moved by
  \<open>eps\<close>, and the parameter slot receives its value minus \<open>rate\<close> times the gradient
  slot. No other matrix of the written network changes.
\<close>

lemma diff_slot_gradient:
  assumes "diff_slot expf of_size ti to eps c p (i, j) (m, g) = Inr (m', g')"
  shows "\<exists>m1 c1.
      cost expf of_size
        (set_param p (poke (get_param p m) (i * stride (get_param p m) + j)
                        (entry (get_param p m) i j + eps)) m) ti to = Inr (m1, c1) \<and>
      get_param p g' = poke (get_param p g) (i * stride (get_param p g) + j) ((c1 - c) / eps) \<and>
      (\<forall>q. q \<noteq> p \<longrightarrow> get_param q g' = get_param q g)"
  using assms
  by (auto simp: diff_slot_def ebind_eq_Inr MAT_AT_eq_Inr MAT_SET_eq_Inr Let_def)

lemma learn_slot_update:
  assumes "learn_slot g rate p (i, j) m = Inr m'"
  shows "get_param p m' = poke (get_param p m) (i * stride (get_param p m) + j)
           (entry (get_param p m) i j - rate * entry (get_param p g) i j) \<and>
         (\<forall>q. q \<noteq> p \<longrightarrow> get_param q m' = get_param q m)"
  using assms
  by (auto simp: learn_slot_def ebind_eq_Inr MAT_AT_eq_Inr MAT_SET_eq_Inr)

text \<open>
  Claim C2. The loops of \<^verbatim>\<open>finite_diff\<close> and \<^verbatim>\<open>xor_learn\<close> run \<open>i\<close> below
  \<^verbatim>\<open>cols\<close> and \<open>j\<close> below \<^verbatim>\<open>rows\<close> and access element \<open>(i, j)\<close>. For the 1 by 2
  matrix \<^verbatim>\<open>b1\<close> of an allocated network they visit \<open>(1, 0)\<close>: row 1 does not exist,
  the cell is \<^verbatim>\<open>es[2]\<close> of a two-cell buffer, and the access is outside it; the
  entry \<open>(0, 1)\<close> is never visited. For the 2 by 1 matrix \<^verbatim>\<open>w2\<close> they visit
  \<open>(0, 1)\<close>, a column that does not exist.
\<close>

theorem param_loop_index_out_of_range:
  "(1, 0) \<in> set (param_slots (b1 net0)) \<and>
   \<not> (1 < rows (b1 net0) \<and> 0 < cols (b1 net0)) \<and>
   rows (b1 net0) * cols (b1 net0) \<le> 1 * stride (b1 net0) + 0 \<and>
   MAT_AT (b1 net0) 1 0 = Inl OutOfBounds \<and>
   (0, 1) \<notin> set (param_slots (b1 net0)) \<and>
   (0, 1) \<in> set (param_slots (w2 net0)) \<and> \<not> (0 < rows (w2 net0) \<and> 1 < cols (w2 net0))"
  by (simp add: net0_def MAT_AT_def)

text \<open>
  Claim C1. On the networks \<^verbatim>\<open>xor_alloc\<close> builds and the training table of
  \<^verbatim>\<open>main\<close>, \<^verbatim>\<open>finite_diff\<close> gets through \<^verbatim>\<open>w1\<close> and the first slot of
  \<^verbatim>\<open>b1\<close> and then reads \<^verbatim>\<open>b1\<close> at \<open>(1, 0)\<close>, outside the buffer: the gradient
  slot of \<^verbatim>\<open>b1[0][1]\<close> is never set. \<open>finite_diff_faults\<close> is the same for every
  content of the two networks.
\<close>

theorem finite_diff_leaves_b1:
  "finite_diff exp real net0 grad0 xor_ti xor_to (1/10) = Inl OutOfBounds"
  by (rule finite_diff_faults[OF alloc_net0 xor_table_ok])

text \<open>
  Claim C3. \<^verbatim>\<open>xor_learn\<close> on the same two networks updates \<^verbatim>\<open>w1\<close> and the first
  slot of \<^verbatim>\<open>b1\<close> and then reads \<^verbatim>\<open>b1\<close> at \<open>(1, 0)\<close>, outside the buffer:
  \<^verbatim>\<open>b1[0][1]\<close> is never updated.
\<close>

theorem xor_learn_leaves_b1:
  "xor_learn net0 grad0 (1/10) = Inl OutOfBounds"
  by (rule xor_learn_faults[OF alloc_net0])

section \<open>The sigmoid over the reals\<close>

text \<open>
  With \<open>exp\<close> on the reals for \<^verbatim>\<open>expf\<close>, the sigmoid lies strictly between 0 and 1
  and is strictly increasing. This is a fact of exact arithmetic: it says nothing about
  the rounded \<^verbatim>\<open>float\<close> results of the program.
\<close>

lemma sigmoidf_exact_range: "0 < sigmoidf exp (x::real) \<and> sigmoidf exp x < 1"
proof -
  have "0 < exp (- x)" by simp
  then show ?thesis by (simp add: sigmoidf_def add_pos_pos)
qed

lemma sigmoidf_exact_mono:
  assumes "(x::real) < y"
  shows "sigmoidf exp x < sigmoidf exp y"
proof -
  have "exp (- y) < exp (- x)" using assms by simp
  moreover have "0 < 1 + exp (- y)" by (simp add: add_pos_pos)
  ultimately show ?thesis
    unfolding sigmoidf_def by (simp add: frac_less2)
qed

end
